theory Spec2Isabelle
  imports Complex_Main "HOL-Library.Word"
begin

unbundle bit_operations_syntax

chapter \<open>SLABatMon: a sealed lead acid battery monitor for the Arduino Nano\<close>

text \<open>
  The repository holds three sketches: \<^verbatim>\<open>SLABatMon-v3.ino\<close> (the current monitor),
  \<^verbatim>\<open>SLABatMon.ino\<close> (its first release) and \<^verbatim>\<open>AV33Tests.ino\<close> (a bench test of the
  3.3v reference calibration). The first part of this theory embeds their functions, the
  second part proves properties of them.

  On the AVR target \<^verbatim>\<open>byte\<close> is 8 bits wide, \<^verbatim>\<open>int\<close> 16 bits and
  \<^verbatim>\<open>unsigned long\<close> 32 bits.
\<close>

type_synonym byte = "8 word"
type_synonym ulong = "32 word"

section \<open>Part 1: the sketches\<close>

subsection \<open>Bytes and characters\<close>

definition byte_of_char :: "char \<Rightarrow> byte" where
  "byte_of_char c = word_of_nat (of_char c)"

definition char_of_byte :: "byte \<Rightarrow> char" where
  "char_of_byte b = char_of (unat b)"

text \<open>
  A C string is the run of bytes before the first NUL. \<open>c_string\<close> reads one out of
  a character array, \<open>buffer_string\<close> out of a byte array.
\<close>

definition c_string :: "string \<Rightarrow> string" where
  "c_string s = takeWhile (\<lambda>c. c \<noteq> CHR 0x00) s"

definition buffer_string :: "byte list \<Rightarrow> string" where
  "buffer_string buf = map char_of_byte (takeWhile (\<lambda>b. b \<noteq> 0) buf)"

subsection \<open>calcCRC8 (SLABatMon-v3.ino)\<close>

text \<open>
  The inner \<^verbatim>\<open>for (byte bitCounter = 0; bitCounter < 8; bitCounter++)\<close> loop of
  \<^verbatim>\<open>calcCRC8\<close>, entered with the counter, the running checksum and the byte being
  processed.
\<close>

function crc8_bits :: "byte \<Rightarrow> byte \<Rightarrow> byte \<Rightarrow> byte" where
  "crc8_bits bitCounter chksumCRC8 currentByte =
     (if bitCounter < 8
      then (let sum = (chksumCRC8 XOR currentByte) AND 0x01;
                shifted = drop_bit 1 chksumCRC8;
                chksumCRC8' = (if sum \<noteq> 0 then shifted XOR 0x8C else shifted)
            in crc8_bits (bitCounter + 1) chksumCRC8' (drop_bit 1 currentByte))
      else chksumCRC8)"
  by pat_completeness auto
termination
proof (relation "measure (\<lambda>(bitCounter, _, _). 8 - unat bitCounter)")
  show "wf (measure (\<lambda>(bitCounter :: byte, _ :: byte, _ :: byte). 8 - unat bitCounter))"
    by simp
next
  fix bitCounter chksumCRC8 currentByte :: byte and x xa xb :: byte
  assume "bitCounter < 8"
  then have "unat bitCounter < 8"
    by (simp add: word_less_nat_alt)
  then have "8 - unat (bitCounter + 1) < 8 - unat bitCounter"
    by (simp add: unat_word_ariths)
  then show "((bitCounter + 1, xb, drop_bit 1 currentByte), bitCounter, chksumCRC8, currentByte)
      \<in> measure (\<lambda>(bitCounter, _, _). 8 - unat bitCounter)"
    by simp
qed

declare crc8_bits.simps [simp del]

text \<open>
  The outer \<^verbatim>\<open>while (*dataBuffer != '\0')\<close> loop. The argument list is the memory from
  the pointer onwards. Running off the end of the array before a NUL is met is undefined
  behaviour in C; the model returns \<open>None\<close> there.
\<close>

fun calcCRC8_from :: "byte list \<Rightarrow> byte \<Rightarrow> byte option" where
  "calcCRC8_from [] chksumCRC8 = None"
| "calcCRC8_from (b # dataBuffer) chksumCRC8 =
     (if b \<noteq> 0 then calcCRC8_from dataBuffer (crc8_bits 0 chksumCRC8 b)
      else Some chksumCRC8)"

definition calcCRC8 :: "byte list \<Rightarrow> byte option" where
  "calcCRC8 dataBuffer = calcCRC8_from dataBuffer 0"

subsection \<open>The CRC-8 of the specification\<close>

text \<open>
  The specification's wording: ``start with accumulator 0; for each byte, for each of its
  8 bits (LSB first), compute feedback = (accumulator XOR byte) \& 1; shift accumulator
  right by 1; if feedback is set, XOR accumulator with 0x8C; shift byte right by 1 after
  each bit. Final accumulator is the checksum.''
\<close>

definition crc8_spec_bit :: "byte \<times> byte \<Rightarrow> byte \<times> byte" where
  "crc8_spec_bit = (\<lambda>(accumulator, byte).
     let feedback = (accumulator XOR byte) AND 1;
         accumulator1 = drop_bit 1 accumulator;
         accumulator2 = (if feedback = 1 then accumulator1 XOR 0x8C else accumulator1)
     in (accumulator2, drop_bit 1 byte))"

definition crc8_spec_byte :: "byte \<Rightarrow> byte \<Rightarrow> byte" where
  "crc8_spec_byte accumulator byte = fst ((crc8_spec_bit ^^ 8) (accumulator, byte))"

definition crc8_spec :: "byte list \<Rightarrow> byte" where
  "crc8_spec bytes = foldl crc8_spec_byte 0 bytes"

subsection \<open>Single-precision arithmetic\<close>

text \<open>
  \<^verbatim>\<open>float\<close> and \<^verbatim>\<open>double\<close> are both IEEE 754 binary32 on the AVR. A value is a
  real number or one of the special values; the sign of zero is not modelled. Every
  arithmetic operation computes the exact result and rounds it with the function
  \<open>rnd\<close>, which the definitions take as a parameter. Overflow to infinity of a finite
  result does not occur at the magnitudes of this program (below \<open>2 ^ 32\<close>) and is not
  modelled.
\<close>

datatype fval = Fin real | PInf | NInf | NaN

type_synonym rounding = "real \<Rightarrow> real"

text \<open>
  What the theorems assume of the rounding: the relative error of a rounded result is at
  most \<open>2 ^ -23\<close> (this covers round-to-nearest and truncation to 24 significant bits),
  and a number with a significand of at most 24 bits is not changed.
\<close>

definition binary32_rounding :: "rounding \<Rightarrow> bool" where
  "binary32_rounding rnd \<longleftrightarrow>
     (\<forall>x. \<bar>rnd x - x\<bar> \<le> \<bar>x\<bar> / 2 ^ 23) \<and>
     (\<forall>(m :: int) (k :: nat). \<bar>m\<bar> < 2 ^ 24 \<and> k \<le> 64 \<longrightarrow>
        rnd (of_int m / 2 ^ k) = of_int m / 2 ^ k)"

definition signed_inf :: "real \<Rightarrow> fval" where
  "signed_inf a = (if a = 0 then NaN else if 0 < a then PInf else NInf)"

fun fadd :: "rounding \<Rightarrow> fval \<Rightarrow> fval \<Rightarrow> fval" where
  "fadd rnd (Fin a) (Fin b) = Fin (rnd (a + b))"
| "fadd rnd NaN _ = NaN"
| "fadd rnd _ NaN = NaN"
| "fadd rnd PInf NInf = NaN"
| "fadd rnd NInf PInf = NaN"
| "fadd rnd PInf _ = PInf"
| "fadd rnd NInf _ = NInf"
| "fadd rnd _ PInf = PInf"
| "fadd rnd _ NInf = NInf"

fun fmul :: "rounding \<Rightarrow> fval \<Rightarrow> fval \<Rightarrow> fval" where
  "fmul rnd (Fin a) (Fin b) = Fin (rnd (a * b))"
| "fmul rnd NaN _ = NaN"
| "fmul rnd _ NaN = NaN"
| "fmul rnd (Fin a) PInf = signed_inf a"
| "fmul rnd (Fin a) NInf = signed_inf (- a)"
| "fmul rnd PInf (Fin b) = signed_inf b"
| "fmul rnd NInf (Fin b) = signed_inf (- b)"
| "fmul rnd PInf PInf = PInf"
| "fmul rnd PInf NInf = NInf"
| "fmul rnd NInf PInf = NInf"
| "fmul rnd NInf NInf = PInf"

text \<open>Division of a finite value by zero gives an infinity (or NaN for 0 / 0); it does not trap.\<close>

fun fdiv :: "rounding \<Rightarrow> fval \<Rightarrow> fval \<Rightarrow> fval" where
  "fdiv rnd (Fin a) (Fin b) = (if b = 0 then signed_inf a else Fin (rnd (a / b)))"
| "fdiv rnd NaN _ = NaN"
| "fdiv rnd _ NaN = NaN"
| "fdiv rnd (Fin a) _ = Fin 0"
| "fdiv rnd PInf (Fin b) = (if 0 \<le> b then PInf else NInf)"
| "fdiv rnd NInf (Fin b) = (if 0 \<le> b then NInf else PInf)"
| "fdiv rnd _ _ = NaN"

text \<open>Comparisons are exact; every comparison with a NaN is false.\<close>

fun flt :: "fval \<Rightarrow> fval \<Rightarrow> bool" where
  "flt (Fin a) (Fin b) = (a < b)"
| "flt NaN _ = False"
| "flt _ NaN = False"
| "flt _ NInf = False"
| "flt PInf _ = False"
| "flt _ _ = True"

fun fge :: "fval \<Rightarrow> fval \<Rightarrow> bool" where
  "fge (Fin a) (Fin b) = (b \<le> a)"
| "fge NaN _ = False"
| "fge _ NaN = False"
| "fge PInf _ = True"
| "fge _ NInf = True"
| "fge _ _ = False"

definition float_of_int :: "rounding \<Rightarrow> int \<Rightarrow> fval" where
  "float_of_int rnd n = Fin (rnd (of_int n))"

text \<open>
  Conversion to an integer type truncates towards zero. Converting an infinity or a NaN
  is undefined in C; the model gives 0 there, and no theorem below rests on it.
\<close>

fun float_to_int :: "fval \<Rightarrow> int" where
  "float_to_int (Fin x) = (if 0 \<le> x then \<lfloor>x\<rfloor> else \<lceil>x\<rceil>)"
| "float_to_int _ = 0"

subsection \<open>getADCReading (all three sketches)\<close>

text \<open>
  The results of the successive \<^verbatim>\<open>analogRead(pinNumber)\<close> calls of one invocation:
  number 0 is the dummy read, numbers 1 to 8 are the samples. The delays have no
  counterpart in the model.
\<close>

type_synonym adc_stream = "nat \<Rightarrow> int"

definition ADCSAMPLES :: nat where "ADCSAMPLES = 8"

text \<open>The \<^verbatim>\<open>for (byte counter = 0; counter < ADCSAMPLES; counter++)\<close> loop.\<close>

function adc_accumulate :: "rounding \<Rightarrow> adc_stream \<Rightarrow> byte \<Rightarrow> fval \<Rightarrow> fval" where
  "adc_accumulate rnd analogRead counter adcTotal =
     (if unat counter < ADCSAMPLES
      then adc_accumulate rnd analogRead (counter + 1)
             (fadd rnd adcTotal
                (fadd rnd (float_of_int rnd (analogRead (Suc (unat counter)))) (Fin (1 / 2))))
      else adcTotal)"
  by pat_completeness auto
termination
proof (relation "measure (\<lambda>(_, _, counter, _). 8 - unat counter)")
  show "wf (measure (\<lambda>(_ :: rounding, _ :: adc_stream, counter :: byte, _ :: fval). 8 - unat counter))"
    by simp
next
  fix rnd :: rounding and analogRead :: adc_stream and counter :: byte and adcTotal :: fval
  assume "unat counter < ADCSAMPLES"
  then have "unat counter < 8"
    by (simp add: ADCSAMPLES_def)
  then have "8 - unat (counter + 1) < 8 - unat counter"
    by (simp add: unat_word_ariths)
  then show "((rnd, analogRead, counter + 1,
       fadd rnd adcTotal (fadd rnd (float_of_int rnd (analogRead (Suc (unat counter)))) (Fin (1 / 2)))),
      rnd, analogRead, counter, adcTotal)
      \<in> measure (\<lambda>(_, _, counter, _). 8 - unat counter)"
    by simp
qed

declare adc_accumulate.simps [simp del]

definition getADCReading :: "rounding \<Rightarrow> adc_stream \<Rightarrow> int" where
  "getADCReading rnd analogRead =
     (let adcTotal = adc_accumulate rnd analogRead 0 (Fin 0);
          adcAverage = float_to_int
            (fadd rnd (fdiv rnd adcTotal (float_of_int rnd (int ADCSAMPLES))) (Fin (1 / 2)))
      in adcAverage)"

text \<open>The ADC of the ATmega328P has 10 bits: a conversion is a number from 0 to 1023.\<close>

definition ADC_MAX :: int where "ADC_MAX = 1023"

definition adc_in_range :: "adc_stream \<Rightarrow> bool" where
  "adc_in_range analogRead \<longleftrightarrow> (\<forall>k. 0 \<le> analogRead k \<and> analogRead k \<le> ADC_MAX)"

definition samples_sum :: "adc_stream \<Rightarrow> nat \<Rightarrow> int" where
  "samples_sum analogRead n = (\<Sum>k = 1..n. analogRead k)"

subsection \<open>Constants of the sketches\<close>

text \<open>
  \<^verbatim>\<open>AVREF\<close> is the literal 3.3, which has no exact binary representation: the
  compiler rounds it. \<^verbatim>\<open>VDIVRATIO\<close> (3.0) and \<^verbatim>\<open>ADCLEVELS\<close> (1024) are exact.
\<close>

definition AVREF :: "rounding \<Rightarrow> fval" where
  "AVREF rnd = Fin (rnd (33 / 10))"

definition VDIVRATIO :: fval where "VDIVRATIO = Fin 3"

definition ADCLEVELS :: int where "ADCLEVELS = 1024"

definition ADCMAXVALUE :: int where "ADCMAXVALUE = 1023"

datatype pin = A0 | A1 | A2 | A3 | A7

definition BAT1VMON :: pin where "BAT1VMON = A0"
definition BAT2VMON :: pin where "BAT2VMON = A1"
definition BAT3VMON :: pin where "BAT3VMON = A2"
definition BAT4VMON :: pin where "BAT4VMON = A3"
definition AVRFVMON :: pin where "AVRFVMON = A7"

definition HB_LED :: nat where "HB_LED = 13"

definition TXBUFFERMAX :: nat where "TXBUFFERMAX = 32"

definition JOB1CYCLE :: ulong where "JOB1CYCLE = 300000"
definition JOB2CYCLE :: ulong where "JOB2CYCLE = 300000"
definition JOB3CYCLE :: ulong where "JOB3CYCLE = 1000"
definition JOB9CYCLE :: ulong where "JOB9CYCLE = 500"

text \<open>\<^verbatim>\<open>ADCREADPERIOD\<close> is \<^verbatim>\<open>(JOB1CYCLE / 60000.0)\<close>.\<close>

definition ADCREADPERIOD :: "rounding \<Rightarrow> fval" where
  "ADCREADPERIOD rnd = fdiv rnd (float_of_int rnd (uint JOB1CYCLE)) (Fin 60000)"

subsection \<open>Job 1 of AV33Tests.ino\<close>

text \<open>
  The body of the first \<^verbatim>\<open>if\<close> of \<^verbatim>\<open>loop()\<close> in AV33Tests.ino (lines 62 to 65):
  first the assignments, given the three readings that the calls of \<^verbatim>\<open>getADCReading\<close>
  return, then the body with its calls. \<open>analogRead p\<close> is the stream of the
  conversions on pin \<open>p\<close>.
\<close>

definition av33_assign :: "rounding \<Rightarrow> int \<Rightarrow> int \<Rightarrow> int \<Rightarrow> int \<times> fval \<times> fval \<times> fval" where
  "av33_assign rnd myAV33ADC rd1 rd2 =
     (let myAV50Ref = fmul rnd (fdiv rnd (AVREF rnd) (float_of_int rnd myAV33ADC))
                        (float_of_int rnd (ADCMAXVALUE + 1));
          myVoltsB1 = fmul rnd
                        (fmul rnd (fdiv rnd (AVREF rnd) (float_of_int rnd myAV33ADC))
                           (float_of_int rnd rd1))
                        VDIVRATIO;
          myVoltsB2 = fmul rnd
                        (fmul rnd (fdiv rnd (AVREF rnd) (float_of_int rnd myAV33ADC))
                           (float_of_int rnd rd2))
                        VDIVRATIO
      in (myAV33ADC, myAV50Ref, myVoltsB1, myVoltsB2))"

definition av33_job1 :: "rounding \<Rightarrow> (pin \<Rightarrow> adc_stream) \<Rightarrow> int \<times> fval \<times> fval \<times> fval" where
  "av33_job1 rnd analogRead =
     av33_assign rnd
       (getADCReading rnd (analogRead AVRFVMON))
       (getADCReading rnd (analogRead BAT1VMON))
       (getADCReading rnd (analogRead BAT2VMON))"

subsection \<open>Calibration and Job 1 of SLABatMon.ino (the first release)\<close>

text \<open>
  The first release derives the global \<^verbatim>\<open>adcFactor\<close> once, in the last statement of
  \<^verbatim>\<open>setup()\<close> (line 75); Job 1 of its \<^verbatim>\<open>loop()\<close> (lines 95 to 98) only reads the four
  battery channels.
\<close>

definition setup_v1 :: "rounding \<Rightarrow> (pin \<Rightarrow> adc_stream) \<Rightarrow> fval" where
  "setup_v1 rnd analogRead =
     (let adcFactor = fmul rnd
            (fdiv rnd (AVREF rnd) (float_of_int rnd (getADCReading rnd (analogRead AVRFVMON))))
            VDIVRATIO
      in adcFactor)"

definition job1_v1 :: "rounding \<Rightarrow> fval \<Rightarrow> (pin \<Rightarrow> adc_stream) \<Rightarrow> fval \<times> fval \<times> fval \<times> fval" where
  "job1_v1 rnd adcFactor analogRead =
     (let myVoltsB1 = fmul rnd adcFactor (float_of_int rnd (getADCReading rnd (analogRead BAT1VMON)));
          myVoltsB2 = fmul rnd adcFactor (float_of_int rnd (getADCReading rnd (analogRead BAT2VMON)));
          myVoltsB3 = fmul rnd adcFactor (float_of_int rnd (getADCReading rnd (analogRead BAT3VMON)));
          myVoltsB4 = fmul rnd adcFactor (float_of_int rnd (getADCReading rnd (analogRead BAT4VMON)))
      in (myVoltsB1, myVoltsB2, myVoltsB3, myVoltsB4))"

subsection \<open>Library functions\<close>

text \<open>
  The sketch calls three formatting functions that are not part of the repository.
  \<^verbatim>\<open>dtostrf(val, width, prec, s)\<close> of avr-libc and \<^verbatim>\<open>Print::print(double, digits)\<close> of
  the Arduino core render a floating-point value; the sketch's functions take them, with
  the rounding of the arithmetic, as the record \<open>platform\<close>. \<^verbatim>\<open>Print::print\<close> of an
  unsigned integer writes its decimal digits; \<open>printNumber\<close> is that function for
  base 10.
\<close>

record platform =
  fp_round :: rounding
  dtostrf :: "fval \<Rightarrow> int \<Rightarrow> nat \<Rightarrow> string"
  printFloat :: "fval \<Rightarrow> nat \<Rightarrow> string"

definition digit_char :: "nat \<Rightarrow> char" where
  "digit_char d = char_of (of_char CHR ''0'' + d)"

function printNumber :: "nat \<Rightarrow> string" where
  "printNumber n =
     (if n < 10 then [digit_char n] else printNumber (n div 10) @ [digit_char (n mod 10)])"
  by pat_completeness auto
termination
  by (relation "measure (\<lambda>n. n)") auto

declare printNumber.simps [simp del]

definition CRLF :: string where
  "CRLF = [CHR 0x0D, CHR 0x0A]"

text \<open>\<open>pad0 w s\<close> is the padding of the \<^verbatim>\<open>%0wd\<close> conversions of \<^verbatim>\<open>sprintf\<close>.\<close>

definition pad0 :: "nat \<Rightarrow> string \<Rightarrow> string" where
  "pad0 w s = replicate (w - length s) CHR ''0'' @ s"

subsection \<open>sendConsoleData (SLABatMon-v3.ino)\<close>

datatype fault = BufferOverflow | MissingTerminator | UninitialisedRead

text \<open>
  \<^verbatim>\<open>sprintf(txBuffer, "%s,%s,%s,%s,%s", ...)\<close> writes the joined string and its
  terminating NUL at the start of the array and leaves the rest of the array as it was.
  Writing past the end of the array is undefined behaviour in C; the model stops with
  \<open>BufferOverflow\<close>.
\<close>

definition sprintf_5s :: "byte list \<Rightarrow> string \<Rightarrow> string \<Rightarrow> string \<Rightarrow> string \<Rightarrow> string
    \<Rightarrow> fault + byte list" where
  "sprintf_5s buf s1 s2 s3 s4 s5 =
     (let bytes = map byte_of_char (s1 @ '','' @ s2 @ '','' @ s3 @ '','' @ s4 @ '','' @ s5) @ [0]
      in if length buf < length bytes then Inl BufferOverflow
         else Inr (bytes @ drop (length bytes) buf))"

text \<open>
  The five local arrays \<^verbatim>\<open>char bRefStr[8], b1VStr[8], ...\<close> hold at most seven
  characters and the NUL. The result is the new content of the global \<^verbatim>\<open>txBuffer\<close> and
  the characters written to \<^verbatim>\<open>Serial\<close> by the three print calls, in order.
\<close>

definition sendConsoleData :: "platform \<Rightarrow> byte list \<Rightarrow> fval \<Rightarrow> fval \<Rightarrow> fval \<Rightarrow> fval \<Rightarrow> fval
    \<Rightarrow> fault + (byte list \<times> string)" where
  "sendConsoleData L buf adcRef33v b1Voltage b2Voltage b3Voltage b4Voltage =
     (let bRefStr = c_string (dtostrf L adcRef33v 4 2);
          b1VStr = c_string (dtostrf L b1Voltage 4 2);
          b2VStr = c_string (dtostrf L b2Voltage 4 2);
          b3VStr = c_string (dtostrf L b3Voltage 4 2);
          b4VStr = c_string (dtostrf L b4Voltage 4 2)
      in if list_ex (\<lambda>s. 7 < length s) [bRefStr, b1VStr, b2VStr, b3VStr, b4VStr]
         then Inl BufferOverflow
         else (case sprintf_5s buf bRefStr b1VStr b2VStr b3VStr b4VStr of
                 Inl f \<Rightarrow> Inl f
               | Inr buf' \<Rightarrow>
                   (case calcCRC8 buf' of
                      None \<Rightarrow> Inl MissingTerminator
                    | Some chksumCRC8 \<Rightarrow>
                        Inr (buf', buffer_string buf' @ '','' @ printNumber (unat chksumCRC8) @ CRLF))))"

subsection \<open>The display functions (SLABatMon-v3.ino)\<close>

datatype job = Job1 | Job2 | Job3 | Job9

text \<open>
  What one pass through \<^verbatim>\<open>setup()\<close> or \<^verbatim>\<open>loop()\<close> does to the outside. \<open>Fired j\<close>
  marks the entry into the body of job \<open>j\<close>; the other events are calls of the serial
  port, the display, the pins and the watchdog.
\<close>

datatype event =
    Fired job
  | SerialWrite string
  | LcdSetCursor nat nat
  | LcdPrint string
  | LcdBacklight
  | LcdNoBacklight
  | DigitalWrite nat bool
  | WatchdogEnable
  | WatchdogReset

definition showLCDStaticData :: "event list" where
  "showLCDStaticData =
     [LcdSetCursor 0 0, LcdPrint ''SLA Battery Voltages'',
      LcdSetCursor 1 1, LcdPrint ''Time: ---d --h --m'',
      LcdSetCursor 0 2, LcdPrint ''B1:--.--v'',
      LcdSetCursor 11 2, LcdPrint ''B2:--.--v'',
      LcdSetCursor 0 3, LcdPrint ''B3:--.--v'',
      LcdSetCursor 11 3, LcdPrint ''B4:--.--v'']"

definition showLCDPeriodData :: "rounding \<Rightarrow> ulong \<Rightarrow> event list" where
  "showLCDPeriodData rnd adcReadCounter =
     (let totalMins = nat (float_to_int
            (fmul rnd (float_of_int rnd (uint adcReadCounter)) (ADCREADPERIOD rnd))) mod 2 ^ 32;
          pMins = totalMins mod 60;
          pHours = (totalMins div 60) mod 24;
          pDays = (totalMins div 60 div 24) mod 1000;
          lcdMessage = pad0 3 (printNumber pDays) @ ''d '' @ pad0 2 (printNumber pHours) @ ''h ''
                         @ pad0 2 (printNumber pMins) @ ''m''
      in [LcdSetCursor 7 1, LcdPrint lcdMessage])"

text \<open>The characters \<^verbatim>\<open>showLCDVoltage\<close> prints at the cursor.\<close>

definition showLCDVoltage :: "platform \<Rightarrow> fval \<Rightarrow> string" where
  "showLCDVoltage L bVoltage =
     (if fge bVoltage (Fin 0) \<and> flt bVoltage (Fin 100)
      then (if flt bVoltage (Fin 10) then ''0'' else []) @ printFloat L bVoltage 2
      else ''--.--'')"

definition showLCDBatteryData :: "platform \<Rightarrow> fval \<Rightarrow> fval \<Rightarrow> fval \<Rightarrow> fval \<Rightarrow> event list" where
  "showLCDBatteryData L b1Voltage b2Voltage b3Voltage b4Voltage =
     [LcdSetCursor 3 2, LcdPrint (showLCDVoltage L b1Voltage),
      LcdSetCursor 14 2, LcdPrint (showLCDVoltage L b2Voltage),
      LcdSetCursor 3 3, LcdPrint (showLCDVoltage L b3Voltage),
      LcdSetCursor 14 3, LcdPrint (showLCDVoltage L b4Voltage)]"

subsection \<open>setup() and loop() of SLABatMon-v3.ino\<close>

text \<open>
  The \<^verbatim>\<open>float\<close> locals of \<^verbatim>\<open>loop()\<close>. They are not static and have no initialiser:
  at the start of each pass through \<^verbatim>\<open>loop()\<close> their values are indeterminate, and only
  the body of Job 1 assigns them.
\<close>

record loop_locals =
  adcOneLvl :: fval
  adcRef50v :: fval
  adcFactor :: fval
  myVoltsB1 :: fval
  myVoltsB2 :: fval
  myVoltsB3 :: fval
  myVoltsB4 :: fval

text \<open>
  The assignments of Job 1 (lines 107 to 114), given the five readings that the calls of
  \<^verbatim>\<open>getADCReading\<close> return.
\<close>

definition job1_assign :: "rounding \<Rightarrow> int \<Rightarrow> int \<Rightarrow> int \<Rightarrow> int \<Rightarrow> int \<Rightarrow> loop_locals" where
  "job1_assign rnd rdRef rd1 rd2 rd3 rd4 =
     (let oneLvl = fdiv rnd (AVREF rnd) (float_of_int rnd rdRef);
          ref50v = fmul rnd oneLvl (float_of_int rnd ADCLEVELS);
          factor = fmul rnd oneLvl VDIVRATIO
      in \<lparr>adcOneLvl = oneLvl, adcRef50v = ref50v, adcFactor = factor,
          myVoltsB1 = fmul rnd factor (float_of_int rnd rd1),
          myVoltsB2 = fmul rnd factor (float_of_int rnd rd2),
          myVoltsB3 = fmul rnd factor (float_of_int rnd rd3),
          myVoltsB4 = fmul rnd factor (float_of_int rnd rd4)\<rparr>)"

definition job1_body :: "rounding \<Rightarrow> (pin \<Rightarrow> adc_stream) \<Rightarrow> loop_locals" where
  "job1_body rnd analogRead =
     job1_assign rnd
       (getADCReading rnd (analogRead AVRFVMON))
       (getADCReading rnd (analogRead BAT1VMON))
       (getADCReading rnd (analogRead BAT2VMON))
       (getADCReading rnd (analogRead BAT3VMON))
       (getADCReading rnd (analogRead BAT4VMON))"

text \<open>
  The static variables of \<^verbatim>\<open>loop()\<close> and the global \<^verbatim>\<open>txBuffer\<close>; \<^verbatim>\<open>LOW\<close> is
  \<open>False\<close> and \<^verbatim>\<open>HIGH\<close> is \<open>True\<close>.
\<close>

record loop_state =
  hbStatus :: bool
  blStatus :: bool
  adcReadCounter :: ulong
  timeMark1 :: ulong
  timeMark2 :: ulong
  timeMark3 :: ulong
  timeMark9 :: ulong
  txBuffer :: "byte list"

text \<open>
  What one pass through \<^verbatim>\<open>loop()\<close> reads: the value of \<^verbatim>\<open>millis()\<close>, the conversions
  of each analog pin and the level of the backlight switch.
\<close>

record loop_input =
  millis :: ulong
  adc :: "pin \<Rightarrow> adc_stream"
  bklgtctl :: bool

definition initial_state :: loop_state where
  "initial_state =
     \<lparr>hbStatus = False, blStatus = True, adcReadCounter = 0,
      timeMark1 = 0, timeMark2 = 0, timeMark3 = 0, timeMark9 = 0,
      txBuffer = replicate (TXBUFFERMAX + 1) 0\<rparr>"

definition setup_v3 :: "event list" where
  "setup_v3 =
     showLCDStaticData
     @ [SerialWrite (''ADCRef50v,Battery-1,Battery-2,Battery-3,Battery-4,CRC8'' @ CRLF),
        WatchdogEnable]"

text \<open>
  The four jobs, each with its guard. Job 1 returns the locals it has assigned, or
  \<open>None\<close> when its body did not run. Job 2 reads them; reading them when they were not
  assigned in this pass is the fault \<open>UninitialisedRead\<close>.
\<close>

definition job1 :: "platform \<Rightarrow> ulong \<Rightarrow> (pin \<Rightarrow> adc_stream) \<Rightarrow> loop_state
    \<Rightarrow> loop_state \<times> loop_locals option \<times> event list" where
  "job1 L timeNow analogRead s =
     (if timeNow - timeMark1 s \<ge> JOB1CYCLE
      then (s\<lparr>timeMark1 := timeNow, adcReadCounter := adcReadCounter s + 1\<rparr>,
            Some (job1_body (fp_round L) analogRead),
            [Fired Job1])
      else (s, None, []))"

definition job2 :: "platform \<Rightarrow> ulong \<Rightarrow> loop_locals option \<Rightarrow> loop_state
    \<Rightarrow> fault + (loop_state \<times> event list)" where
  "job2 L timeNow locals s =
     (if timeNow - timeMark2 s \<ge> JOB2CYCLE
      then (case locals of
              None \<Rightarrow> Inl UninitialisedRead
            | Some v \<Rightarrow>
                (case sendConsoleData L (txBuffer s) (adcRef50v v)
                        (myVoltsB1 v) (myVoltsB2 v) (myVoltsB3 v) (myVoltsB4 v) of
                   Inl f \<Rightarrow> Inl f
                 | Inr (buf', out) \<Rightarrow>
                     Inr (s\<lparr>timeMark2 := timeNow, txBuffer := buf'\<rparr>,
                          [Fired Job2, SerialWrite out]
                          @ showLCDPeriodData (fp_round L) (adcReadCounter s)
                          @ showLCDBatteryData L (myVoltsB1 v) (myVoltsB2 v) (myVoltsB3 v) (myVoltsB4 v))))
      else Inr (s, []))"

definition job3 :: "ulong \<Rightarrow> bool \<Rightarrow> loop_state \<Rightarrow> loop_state \<times> event list" where
  "job3 timeNow switch s =
     (if timeNow - timeMark3 s \<ge> JOB3CYCLE
      then (if switch
            then (if \<not> blStatus s
                  then (s\<lparr>timeMark3 := timeNow, blStatus := True\<rparr>, [Fired Job3, LcdBacklight])
                  else (s\<lparr>timeMark3 := timeNow\<rparr>, [Fired Job3]))
            else (if blStatus s
                  then (s\<lparr>timeMark3 := timeNow, blStatus := False\<rparr>, [Fired Job3, LcdNoBacklight])
                  else (s\<lparr>timeMark3 := timeNow\<rparr>, [Fired Job3])))
      else (s, []))"

definition job9 :: "ulong \<Rightarrow> loop_state \<Rightarrow> loop_state \<times> event list" where
  "job9 timeNow s =
     (if timeNow - timeMark9 s \<ge> JOB9CYCLE
      then (s\<lparr>timeMark9 := timeNow, hbStatus := \<not> hbStatus s\<rparr>,
            [Fired Job9, DigitalWrite HB_LED (\<not> hbStatus s), WatchdogReset])
      else (s, []))"

definition loop :: "platform \<Rightarrow> loop_state \<Rightarrow> loop_input \<Rightarrow> fault + (loop_state \<times> event list)" where
  "loop L s inp =
     (let timeNow = millis inp;
          (s1, locals, ev1) = job1 L timeNow (adc inp) s
      in case job2 L timeNow locals s1 of
           Inl f \<Rightarrow> Inl f
         | Inr (s2, ev2) \<Rightarrow>
             (let (s3, ev3) = job3 timeNow (bklgtctl inp) s2;
                  (s4, ev4) = job9 timeNow s3
              in Inr (s4, ev1 @ ev2 @ ev3 @ ev4)))"

text \<open>
  The passes through \<^verbatim>\<open>loop()\<close> for a list of inputs, with the events of each pass.
  The run stops at the first fault.
\<close>

fun run :: "platform \<Rightarrow> loop_state \<Rightarrow> loop_input list \<Rightarrow> fault + (loop_state \<times> event list list)" where
  "run L s [] = Inr (s, [])"
| "run L s (inp # inps) =
     (case loop L s inp of
        Inl f \<Rightarrow> Inl f
      | Inr (s', evs) \<Rightarrow>
          (case run L s' inps of
             Inl f \<Rightarrow> Inl f
           | Inr (s'', evss) \<Rightarrow> Inr (s'', evs # evss)))"

text \<open>The states of the sketch after reset and any number of passes through \<^verbatim>\<open>loop()\<close>.\<close>

inductive reachable :: "platform \<Rightarrow> loop_state \<Rightarrow> bool" for L :: platform where
  reachable_initial: "reachable L initial_state"
| reachable_loop: "reachable L s \<Longrightarrow> loop L s inp = Inr (s', evs) \<Longrightarrow> reachable L s'"

subsection \<open>The scheduler\<close>

text \<open>The period and the last-fire mark of each job, as \<^verbatim>\<open>loop()\<close> uses them.\<close>

fun period :: "job \<Rightarrow> ulong" where
  "period Job1 = JOB1CYCLE"
| "period Job2 = JOB2CYCLE"
| "period Job3 = JOB3CYCLE"
| "period Job9 = JOB9CYCLE"

fun mark :: "job \<Rightarrow> loop_state \<Rightarrow> ulong" where
  "mark Job1 s = timeMark1 s"
| "mark Job2 s = timeMark2 s"
| "mark Job3 s = timeMark3 s"
| "mark Job9 s = timeMark9 s"

text \<open>
  The clock readings of the passes in which job \<open>j\<close> fired, for a run whose passes
  happened at the times \<open>Ts\<close> (in milliseconds since reset, not wrapped).
\<close>

definition fire_times :: "job \<Rightarrow> nat list \<Rightarrow> event list list \<Rightarrow> nat list" where
  "fire_times j Ts evss = map fst (filter (\<lambda>(T, evs). Fired j \<in> set evs) (zip Ts evss))"

text \<open>\<open>spaced P ts\<close>: each time of the list is at least \<open>P\<close> after the one before it.\<close>

fun spaced :: "nat \<Rightarrow> nat list \<Rightarrow> bool" where
  "spaced P [] = True"
| "spaced P [t] = True"
| "spaced P (t # u # ts) = (t + P \<le> u \<and> spaced P (u # ts))"

definition in_window :: "nat \<Rightarrow> nat \<Rightarrow> nat list \<Rightarrow> nat list" where
  "in_window a W ts = filter (\<lambda>t. a \<le> t \<and> t \<le> a + W) ts"

subsection \<open>A reference platform and sample inputs\<close>

text \<open>
  The examples below need a concrete platform. Its arithmetic is exact: \<open>fp_round\<close> is
  the identity, so a value within one rounding error of a rounding boundary may print
  differently than on the AVR; no example below is such a value. Its two renderings follow
  the library functions: the value is rounded half up to the requested number of decimals
  and written as integer part, point and decimals; \<^verbatim>\<open>Print::print\<close> writes \<^verbatim>\<open>nan\<close>,
  \<^verbatim>\<open>inf\<close> and \<^verbatim>\<open>ovf\<close> for values it cannot render, and \<^verbatim>\<open>dtostrf\<close> pads the result on
  the left with spaces to the requested width.
\<close>

fun frac_digits :: "real \<Rightarrow> nat \<Rightarrow> string" where
  "frac_digits remainder 0 = []"
| "frac_digits remainder (Suc digits) =
     (let toPrint = nat \<lfloor>remainder * 10\<rfloor>
      in digit_char toPrint # frac_digits (remainder * 10 - of_nat toPrint) digits)"

definition render_fixed :: "real \<Rightarrow> nat \<Rightarrow> string" where
  "render_fixed x digits =
     (let number = x + (1 / 2) / 10 ^ digits;
          int_part = nat \<lfloor>number\<rfloor>
      in printNumber int_part @ (if 0 < digits then ''.'' else [])
         @ frac_digits (number - of_nat int_part) digits)"

text \<open>
  \<^verbatim>\<open>Print::printFloat(number, digits)\<close> of the Arduino core, operation by operation:
  the rounding constant is 0.5 divided by 10 once for each digit; it is added to the
  number; the integer part is printed, then the point, then the digits of the remainder
  one at a time. Every floating-point operation rounds with \<open>rnd\<close>.
\<close>

fun printFloat_rounding :: "rounding \<Rightarrow> real \<Rightarrow> nat \<Rightarrow> real" where
  "printFloat_rounding rnd rounding 0 = rounding"
| "printFloat_rounding rnd rounding (Suc i) = printFloat_rounding rnd (rnd (rounding / 10)) i"

fun printFloat_digits :: "rounding \<Rightarrow> real \<Rightarrow> nat \<Rightarrow> string" where
  "printFloat_digits rnd remainder 0 = []"
| "printFloat_digits rnd remainder (Suc digits) =
     (let remainder10 = rnd (remainder * 10);
          toPrint = nat \<lfloor>remainder10\<rfloor>
      in printNumber toPrint
         @ printFloat_digits rnd (rnd (remainder10 - rnd (of_nat toPrint))) digits)"

definition printFloat_unsigned :: "rounding \<Rightarrow> real \<Rightarrow> nat \<Rightarrow> string" where
  "printFloat_unsigned rnd x digits =
     (let number = rnd (x + printFloat_rounding rnd (1 / 2) digits);
          int_part = nat \<lfloor>number\<rfloor>;
          remainder = rnd (number - rnd (of_nat int_part))
      in printNumber int_part @ (if 0 < digits then ''.'' else [])
         @ printFloat_digits rnd remainder digits)"

fun printFloat_ref :: "rounding \<Rightarrow> fval \<Rightarrow> nat \<Rightarrow> string" where
  "printFloat_ref rnd NaN digits = ''nan''"
| "printFloat_ref rnd PInf digits = ''inf''"
| "printFloat_ref rnd NInf digits = ''inf''"
| "printFloat_ref rnd (Fin x) digits =
     (if 4294967040 < x \<or> x < - 4294967040 then ''ovf''
      else if x < 0 then ''-'' @ printFloat_unsigned rnd (- x) digits
      else printFloat_unsigned rnd x digits)"

text \<open>
  \<^verbatim>\<open>dtostrf(val, width, prec, s)\<close> of avr-libc converts the value exactly and rounds the
  decimal expansion to \<open>prec\<close> places.
\<close>

fun dtostrf_body :: "fval \<Rightarrow> nat \<Rightarrow> string" where
  "dtostrf_body NaN prec = ''nan''"
| "dtostrf_body PInf prec = ''inf''"
| "dtostrf_body NInf prec = ''-inf''"
| "dtostrf_body (Fin x) prec =
     (if x < 0 then ''-'' @ render_fixed (- x) prec else render_fixed x prec)"

definition dtostrf_ref :: "fval \<Rightarrow> int \<Rightarrow> nat \<Rightarrow> string" where
  "dtostrf_ref val width prec =
     replicate (nat width - length (dtostrf_body val prec)) CHR '' '' @ dtostrf_body val prec"

definition ref_platform :: platform where
  "ref_platform =
     \<lparr>fp_round = (\<lambda>x. x), dtostrf = dtostrf_ref, printFloat = printFloat_ref (\<lambda>x. x)\<rparr>"

text \<open>
  A bench: the 3.3v reference converts to 693, the four battery inputs to 820, 751, 700
  and 0 (nothing connected), and the backlight switch is on.
\<close>

definition bench_adc :: "pin \<Rightarrow> adc_stream" where
  "bench_adc p k = (case p of A7 \<Rightarrow> 693 | A0 \<Rightarrow> 820 | A1 \<Rightarrow> 751 | A2 \<Rightarrow> 700 | A3 \<Rightarrow> 0)"

text \<open>The same bench later, when the supply has drifted: the reference converts to 660.\<close>

definition drift_adc :: "pin \<Rightarrow> adc_stream" where
  "drift_adc p k = (case p of A7 \<Rightarrow> 660 | _ \<Rightarrow> bench_adc p k)"

definition pass_at :: "nat \<Rightarrow> loop_input" where
  "pass_at T = \<lparr>millis = word_of_nat T, adc = bench_adc, bklgtctl = True\<rparr>"

text \<open>
  The scenario of the specification: the reference reads 682 and every battery channel
  reads 900. The conversions are one less, since \<^verbatim>\<open>getADCReading\<close> adds one.
\<close>

definition scenario_adc :: "pin \<Rightarrow> adc_stream" where
  "scenario_adc p k = (case p of A7 \<Rightarrow> 681 | _ \<Rightarrow> 899)"

text \<open>Every analog input at 0 volts: all conversions are 0.\<close>

definition grounded_adc :: "pin \<Rightarrow> adc_stream" where
  "grounded_adc p k = 0"

text \<open>The bench with the reference input at 0 volts.\<close>

definition dead_reference_adc :: "pin \<Rightarrow> adc_stream" where
  "dead_reference_adc p k = (case p of A7 \<Rightarrow> 0 | _ \<Rightarrow> bench_adc p k)"

text \<open>The reference input at 0 volts and every battery input at full scale.\<close>

definition saturated_adc :: "pin \<Rightarrow> adc_stream" where
  "saturated_adc p k = (case p of A7 \<Rightarrow> 0 | _ \<Rightarrow> 1023)"

text \<open>A pass through \<^verbatim>\<open>loop()\<close> at time \<open>T\<close> with the conversions \<open>a\<close>.\<close>

definition pass_with :: "(pin \<Rightarrow> adc_stream) \<Rightarrow> nat \<Rightarrow> loop_input" where
  "pass_with a T = \<lparr>millis = word_of_nat T, adc = a, bklgtctl = True\<rparr>"

text \<open>The times at which job \<open>j\<close> fired in a run, or \<open>None\<close> if the run faulted.\<close>

definition fires_of :: "platform \<Rightarrow> loop_state \<Rightarrow> loop_input list \<Rightarrow> nat list \<Rightarrow> job \<Rightarrow> nat list option" where
  "fires_of L s inps Ts j =
     (case run L s inps of Inl f \<Rightarrow> None | Inr (s', evss) \<Rightarrow> Some (fire_times j Ts evss))"

subsection \<open>Reading the outputs\<close>

text \<open>The characters a list of events sends to the serial port, in order.\<close>

fun serial_text :: "event list \<Rightarrow> string" where
  "serial_text [] = []"
| "serial_text (SerialWrite t # evs) = t @ serial_text evs"
| "serial_text (_ # evs) = serial_text evs"


text \<open>
  The value string of the specification's telemetry format: the fields in their order,
  separated by commas, with no comma after the last one.
\<close>

fun join_commas :: "string list \<Rightarrow> string" where
  "join_commas [] = []"
| "join_commas [s] = s"
| "join_commas (s # ss) = s @ '','' @ join_commas ss"

definition field_of :: "platform \<Rightarrow> fval \<Rightarrow> string" where
  "field_of L v = c_string (dtostrf L v 4 2)"

definition value_string :: "platform \<Rightarrow> fval list \<Rightarrow> string" where
  "value_string L vs = join_commas (map (field_of L) vs)"

text \<open>
  The telemetry format of the specification, read back from a line: the fields between
  the commas, and a field with exactly two decimal places (one or more digits, a point,
  two digits).
\<close>

fun split_commas :: "string \<Rightarrow> string list" where
  "split_commas [] = [[]]"
| "split_commas (c # cs) =
     (if c = CHR '','' then [] # split_commas cs
      else (case split_commas cs of [] \<Rightarrow> [[c]] | f # fs \<Rightarrow> (c # f) # fs))"

definition is_digit :: "char \<Rightarrow> bool" where
  "is_digit c \<longleftrightarrow> c \<in> set ''0123456789''"

definition two_decimals :: "string \<Rightarrow> bool" where
  "two_decimals s \<longleftrightarrow>
     (case rev s of
        d2 # d1 # p # ds \<Rightarrow>
          is_digit d2 \<and> is_digit d1 \<and> p = CHR ''.'' \<and> ds \<noteq> [] \<and> list_all is_digit ds
      | _ \<Rightarrow> False)"

text \<open>
  What the theorems on the telemetry line assume of \<^verbatim>\<open>dtostrf\<close>, which is not part of
  the repository: with width 4 and precision 2 it renders a finite value that is not
  negative with exactly two decimal places.
\<close>

definition dtostrf_two_decimals :: "platform \<Rightarrow> bool" where
  "dtostrf_two_decimals L \<longleftrightarrow> (\<forall>x. 0 \<le> x \<longrightarrow> two_decimals (c_string (dtostrf L (Fin x) 4 2)))"

section \<open>Part 2: properties\<close>

subsection \<open>The checksum\<close>

lemma crc8_bits_step:
  "bitCounter < 8 \<Longrightarrow> crc8_bits bitCounter c b =
     crc8_bits (bitCounter + 1) (fst (crc8_spec_bit (c, b))) (snd (crc8_spec_bit (c, b)))"
  apply (subst crc8_bits.simps)
  apply (simp add: crc8_spec_bit_def Let_def and_one_eq)
  done

lemma crc8_bits_done: "crc8_bits 8 c b = c"
  by (subst crc8_bits.simps) simp

lemma crc8_bits_funpow:
  "n + k = 8 \<Longrightarrow> crc8_bits (of_nat n) c b = fst ((crc8_spec_bit ^^ k) (c, b))"
proof (induction k arbitrary: n c b)
  case 0
  then show ?case by (simp add: crc8_bits_done)
next
  case (Suc k)
  then have "n < 8" by simp
  then have lt: "(of_nat n :: byte) < 8"
    by (simp add: word_less_nat_alt unat_of_nat)
  have "crc8_bits (of_nat n) c b =
        crc8_bits (of_nat (Suc n)) (fst (crc8_spec_bit (c, b))) (snd (crc8_spec_bit (c, b)))"
    using crc8_bits_step [OF lt] by (simp add: add.commute)
  also have "\<dots> = fst ((crc8_spec_bit ^^ k) (crc8_spec_bit (c, b)))"
    using Suc.IH [of "Suc n"] Suc.prems by simp
  finally show ?case by (simp add: funpow_swap1)
qed

lemma crc8_bits_eq_spec: "crc8_bits 0 c b = crc8_spec_byte c b"
  using crc8_bits_funpow [of 0 8 c b] by (simp add: crc8_spec_byte_def)

lemma calcCRC8_from_eq:
  "0 \<notin> set s \<Longrightarrow> calcCRC8_from (s @ 0 # rest) c = Some (foldl crc8_spec_byte c s)"
  by (induction s arbitrary: c) (auto simp: crc8_bits_eq_spec)

lemma calcCRC8_terminated:
  "0 \<notin> set s \<Longrightarrow> calcCRC8 (s @ 0 # rest) = Some (crc8_spec s)"
  by (simp add: calcCRC8_def crc8_spec_def calcCRC8_from_eq)

lemma calcCRC8_from_unterminated: "0 \<notin> set s \<Longrightarrow> calcCRC8_from s c = None"
  by (induction s arbitrary: c) auto

text \<open>
  The check value of the CRC-8/MAXIM catalogue entry (polynomial 0x31 reflected to 0x8C,
  initial value 0): the ASCII digits 1 to 9 give 0xA1.
\<close>

lemma crc8_spec_check_value: "crc8_spec (map byte_of_char ''123456789'') = 0xA1"
  by code_simp

subsection \<open>The sampler\<close>

lemma binary32_rounding_exact: "binary32_rounding (\<lambda>x. x)"
  by (simp add: binary32_rounding_def)

lemma rnd_exact:
  assumes "binary32_rounding rnd" "\<bar>m\<bar> < 2 ^ 24" "k \<le> 64" "x = of_int m / 2 ^ k"
  shows "rnd x = x"
  using assms unfolding binary32_rounding_def by blast

lemma samples_sum_bounds:
  assumes "adc_in_range analogRead"
  shows "0 \<le> samples_sum analogRead n \<and> samples_sum analogRead n \<le> 1023 * int n"
proof -
  have "(\<Sum>k = 1..n. analogRead k) \<le> (\<Sum>k = 1..n. 1023)"
    using assms by (intro sum_mono) (simp add: adc_in_range_def ADC_MAX_def)
  moreover have "0 \<le> (\<Sum>k = 1..n. analogRead k)"
    using assms by (intro sum_nonneg) (simp add: adc_in_range_def)
  ultimately show ?thesis by (simp add: samples_sum_def)
qed

lemma samples_sum_Suc:
  "samples_sum analogRead (Suc n) = samples_sum analogRead n + analogRead (Suc n)"
  by (simp add: samples_sum_def)

text \<open>
  One pass through the loop body. The running total is a multiple of one half below
  \<open>2 ^ 14\<close>, so no addition rounds.
\<close>

lemma adc_accumulate_step:
  assumes "binary32_rounding rnd" "adc_in_range analogRead" "n < 8"
  shows "adc_accumulate rnd analogRead (of_nat n) (Fin (of_int (2 * samples_sum analogRead n + int n) / 2))
       = adc_accumulate rnd analogRead (of_nat (Suc n))
           (Fin (of_int (2 * samples_sum analogRead (Suc n) + int (Suc n)) / 2))"
proof -
  define c where "c = analogRead (Suc n)"
  define S where "S = samples_sum analogRead n"
  have c: "0 \<le> c" "c \<le> 1023"
    using assms(2) by (simp_all add: adc_in_range_def c_def ADC_MAX_def)
  have S: "0 \<le> S" "S \<le> 1023 * int n"
    using samples_sum_bounds [OF assms(2), of n] by (simp_all add: S_def)
  have n: "int n < 8" using assms(3) by simp
  have un: "unat (of_nat n :: byte) = n"
    using assms(3) by (simp add: unat_of_nat)
  have e1: "rnd (of_int c) = of_int c"
  proof (rule rnd_exact [OF assms(1), of c 0])
    show "\<bar>c\<bar> < 2 ^ 24" using c by simp
  qed simp_all
  have e2: "rnd (of_int c + 1 / 2) = of_int c + 1 / 2"
  proof (rule rnd_exact [OF assms(1), of "2 * c + 1" 1])
    show "\<bar>2 * c + 1\<bar> < 2 ^ 24" using c by simp
    show "real_of_int c + 1 / 2 = real_of_int (2 * c + 1) / 2 ^ 1" by simp
  qed simp
  have e3: "rnd (of_int (2 * S + int n) / 2 + (of_int c + 1 / 2))
          = of_int (2 * S + int n) / 2 + (of_int c + 1 / 2)"
  proof (rule rnd_exact [OF assms(1), of "2 * S + int n + 2 * c + 1" 1])
    show "\<bar>2 * S + int n + 2 * c + 1\<bar> < 2 ^ 24" using c S n by simp
    show "real_of_int (2 * S + int n) / 2 + (real_of_int c + 1 / 2) =
          real_of_int (2 * S + int n + 2 * c + 1) / 2 ^ 1" by simp
  qed simp
  have e4: "of_int (2 * S + int n) / 2 + (of_int c + 1 / 2)
          = (of_int (2 * (S + c) + int (Suc n)) / 2 :: real)"
    by simp
  have "adc_accumulate rnd analogRead (of_nat n) (Fin (of_int (2 * S + int n) / 2))
      = adc_accumulate rnd analogRead (of_nat n + 1)
          (fadd rnd (Fin (of_int (2 * S + int n) / 2)) (fadd rnd (float_of_int rnd c) (Fin (1 / 2))))"
    by (subst adc_accumulate.simps) (simp add: un c_def ADCSAMPLES_def assms(3))
  also have "\<dots> = adc_accumulate rnd analogRead (of_nat (Suc n))
          (Fin (of_int (2 * (S + c) + int (Suc n)) / 2))"
    by (simp only: float_of_int_def fadd.simps e1 e2 e3) (simp only: e4 of_nat_Suc add.commute [of 1])
  finally show ?thesis
    by (simp only: S_def c_def samples_sum_Suc)
qed

lemma adc_accumulate_done: "adc_accumulate rnd analogRead 8 t = t"
  by (subst adc_accumulate.simps) (simp add: ADCSAMPLES_def)

lemma adc_accumulate_tail:
  assumes "binary32_rounding rnd" "adc_in_range analogRead"
  shows "n + k = 8 \<Longrightarrow>
     adc_accumulate rnd analogRead (of_nat n) (Fin (of_int (2 * samples_sum analogRead n + int n) / 2))
       = Fin (of_int (2 * samples_sum analogRead 8 + 8) / 2)"
proof (induction k arbitrary: n)
  case 0
  then show ?case by (simp add: adc_accumulate_done)
next
  case (Suc k)
  then have "n < 8" by simp
  from adc_accumulate_step [OF assms this] Suc.IH [of "Suc n"] Suc.prems
  show ?case by simp
qed

lemma adc_accumulate_total:
  assumes "binary32_rounding rnd" "adc_in_range analogRead"
  shows "adc_accumulate rnd analogRead 0 (Fin 0) = Fin (of_int (samples_sum analogRead 8) + 4)"
proof -
  have "adc_accumulate rnd analogRead 0 (Fin 0) = Fin (of_int (2 * samples_sum analogRead 8 + 8) / 2)"
    using adc_accumulate_tail [OF assms, of 0 8] by (simp add: samples_sum_def)
  then show ?thesis by (simp add: field_simps)
qed

lemma getADCReading_closed_form:
  assumes "binary32_rounding rnd" "adc_in_range analogRead"
  shows "getADCReading rnd analogRead = samples_sum analogRead 8 div 8 + 1"
proof -
  define S where "S = samples_sum analogRead 8"
  have S: "0 \<le> S" "S \<le> 8184"
    using samples_sum_bounds [OF assms(2), of 8] by (simp_all add: S_def)
  have e0: "rnd 8 = 8"
    using rnd_exact [OF assms(1), of 8 0 8] by simp
  have e1: "rnd ((of_int S + 4) / 8) = (of_int S + 4) / 8"
  proof (rule rnd_exact [OF assms(1), of "S + 4" 3])
    show "\<bar>S + 4\<bar> < 2 ^ 24" using S by simp
  qed simp_all
  have e2: "rnd ((of_int S + 4) / 8 + 1 / 2) = (of_int S + 4) / 8 + 1 / 2"
  proof (rule rnd_exact [OF assms(1), of "S + 8" 3])
    show "\<bar>S + 8\<bar> < 2 ^ 24" using S by simp
  qed simp_all
  have e3: "(of_int S + 4) / 8 + 1 / 2 = (of_int (S + 8) :: real) / of_int 8"
    by simp
  have "getADCReading rnd analogRead = float_to_int (Fin ((of_int S + 4) / 8 + 1 / 2))"
    unfolding getADCReading_def Let_def adc_accumulate_total [OF assms] float_of_int_def
        ADCSAMPLES_def S_def [symmetric]
    by (simp add: e0 e1 e2)
  also have "\<dots> = \<lfloor>(of_int (S + 8) :: real) / of_int 8\<rfloor>"
    using S unfolding e3 by simp
  also have "\<dots> = (S + 8) div 8"
    by (rule floor_divide_of_int_eq)
  finally show ?thesis by (simp add: S_def)
qed

lemma getADCReading_range:
  assumes "binary32_rounding rnd" "adc_in_range analogRead"
  shows "1 \<le> getADCReading rnd analogRead \<and> getADCReading rnd analogRead \<le> 1024"
proof -
  have "0 \<le> samples_sum analogRead 8 \<and> samples_sum analogRead 8 \<le> 8184"
    using samples_sum_bounds [OF assms(2), of 8] by simp
  then have "0 \<le> samples_sum analogRead 8 div 8 \<and> samples_sum analogRead 8 div 8 \<le> 1023"
    by presburger
  then show ?thesis
    unfolding getADCReading_closed_form [OF assms] by simp
qed

text \<open>
  Claim C5, as the code has it. For every invocation of the sampler whose conversions are
  in \<open>[0, ADC_MAX]\<close>, whatever the rounding of the single-precision operations, the
  reading is the truncation of \<open>(sum of (conversion + 0.5)) / 8 + 0.5\<close>; that is the
  integer quotient of the sum of the eight samples by 8, plus one. It is an integer in
  \<open>[1, ADC_MAX + 1]\<close>: a channel stuck at the low rail reads 1 and a channel stuck at the
  high rail reads 1024. The dummy conversion does not enter the result.
\<close>

theorem getADCReading_value:
  assumes "binary32_rounding rnd" "adc_in_range analogRead"
  shows "getADCReading rnd analogRead
           = float_to_int (Fin ((\<Sum>k = 1..8. (of_int (analogRead k) + 1 / 2)) / 8 + 1 / 2))
       \<and> getADCReading rnd analogRead = (\<Sum>k = 1..8. analogRead k) div 8 + 1
       \<and> 1 \<le> getADCReading rnd analogRead
       \<and> getADCReading rnd analogRead \<le> ADC_MAX + 1
       \<and> ((\<forall>k. analogRead k = 0) \<longrightarrow> getADCReading rnd analogRead = 1)
       \<and> ((\<forall>k. analogRead k = ADC_MAX) \<longrightarrow> getADCReading rnd analogRead = ADC_MAX + 1)"
proof -
  define S where "S = (\<Sum>k = 1..8. analogRead k)"
  have S: "0 \<le> S" "S \<le> 8184"
    using samples_sum_bounds [OF assms(2), of 8] by (simp_all add: S_def samples_sum_def)
  have cf: "getADCReading rnd analogRead = S div 8 + 1"
    using getADCReading_closed_form [OF assms] by (simp add: S_def samples_sum_def)
  have sumeq: "(\<Sum>k = 1..8. (real_of_int (analogRead k) + 1 / 2)) = real_of_int S + 4"
    by (simp add: sum.distrib S_def)
  have val: "(real_of_int S + 4) / 8 + 1 / 2 = real_of_int (S + 8) / real_of_int 8"
    by simp
  have nonneg: "0 \<le> real_of_int (S + 8) / real_of_int 8"
    using S by simp
  have "float_to_int (Fin ((\<Sum>k = 1..8. (of_int (analogRead k) + 1 / 2)) / 8 + 1 / 2))
      = \<lfloor>real_of_int (S + 8) / real_of_int 8\<rfloor>"
    unfolding sumeq val using nonneg by (simp only: float_to_int.simps if_True)
  also have "\<dots> = (S + 8) div 8"
    by (rule floor_divide_of_int_eq)
  finally have tr: "float_to_int (Fin ((\<Sum>k = 1..8. (of_int (analogRead k) + 1 / 2)) / 8 + 1 / 2))
      = S div 8 + 1"
    by simp
  have rg: "1 \<le> getADCReading rnd analogRead \<and> getADCReading rnd analogRead \<le> ADC_MAX + 1"
    using getADCReading_range [OF assms] by (simp add: ADC_MAX_def)
  have lo: "(\<forall>k. analogRead k = 0) \<longrightarrow> getADCReading rnd analogRead = 1"
    by (simp add: cf S_def)
  have hi: "(\<forall>k. analogRead k = ADC_MAX) \<longrightarrow> getADCReading rnd analogRead = ADC_MAX + 1"
    by (simp add: cf S_def ADC_MAX_def)
  show ?thesis
    using cf tr rg lo hi by (simp add: S_def)
qed

theorem getADCReading_value_witness:
  "binary32_rounding (\<lambda>x. x) \<and> adc_in_range (\<lambda>k. 512)
   \<and> getADCReading (\<lambda>x. x) (\<lambda>k. 512) = 513"
proof -
  have r: "adc_in_range (\<lambda>k. 512)"
    by (simp add: adc_in_range_def ADC_MAX_def)
  from getADCReading_value [OF binary32_rounding_exact r] binary32_rounding_exact r
  show ?thesis by simp
qed

text \<open>
  The reading is not confined to \<open>[0, ADC_MAX]\<close>, and a rail does not read as 0 or
  \<open>ADC_MAX\<close>: eight conversions of 0 total 4.0 with their biases, 4.0 / 8 + 0.5 is 1.0;
  eight conversions of 1023 total 8188.0, and 8188.0 / 8 + 0.5 is 1024.0. All these
  numbers are exact in single precision.
\<close>

theorem getADCReading_rail_counterexample:
  "adc_in_range (\<lambda>k. 0) \<and> getADCReading (\<lambda>x. x) (\<lambda>k. 0) = 1
   \<and> adc_in_range (\<lambda>k. 1023) \<and> getADCReading (\<lambda>x. x) (\<lambda>k. 1023) = 1024
   \<and> \<not> getADCReading (\<lambda>x. x) (\<lambda>k. 1023) \<le> ADC_MAX"
proof -
  have r0: "adc_in_range (\<lambda>k. 0)" and r1: "adc_in_range (\<lambda>k. 1023)"
    by (simp_all add: adc_in_range_def ADC_MAX_def)
  have "getADCReading (\<lambda>x. x) (\<lambda>k. 0) = 1"
    using getADCReading_closed_form [OF binary32_rounding_exact r0] by (simp add: samples_sum_def)
  moreover have "getADCReading (\<lambda>x. x) (\<lambda>k. 1023) = 1024"
    using getADCReading_closed_form [OF binary32_rounding_exact r1] by (simp add: samples_sum_def)
  ultimately show ?thesis using r0 r1 by (simp add: ADC_MAX_def)
qed

subsection \<open>The scheduler and the start of a run\<close>

lemma Fired_not_in_showLCDPeriodData [simp]: "count_list (showLCDPeriodData rnd c) (Fired j) = 0"
  by (simp add: showLCDPeriodData_def Let_def)

lemma Fired_not_in_showLCDBatteryData [simp]: "count_list (showLCDBatteryData L a b c d) (Fired j) = 0"
  by (simp add: showLCDBatteryData_def)

lemma job1_sched:
  assumes "job1 L now a s = (s', loc, evs)"
  shows "count_list evs (Fired j) = (if j = Job1 \<and> period Job1 \<le> now - mark Job1 s then 1 else 0)"
    and "mark j s' = (if j = Job1 \<and> period Job1 \<le> now - mark Job1 s then now else mark j s)"
  using assms by (cases j; auto simp: job1_def split: if_splits)+

lemma job2_sched:
  assumes "job2 L now loc s = Inr (s', evs)"
  shows "count_list evs (Fired j) = (if j = Job2 \<and> period Job2 \<le> now - mark Job2 s then 1 else 0)"
    and "mark j s' = (if j = Job2 \<and> period Job2 \<le> now - mark Job2 s then now else mark j s)"
  using assms by (cases j; auto simp: job2_def split: if_splits option.splits sum.splits)+

lemma job3_sched:
  assumes "job3 now sw s = (s', evs)"
  shows "count_list evs (Fired j) = (if j = Job3 \<and> period Job3 \<le> now - mark Job3 s then 1 else 0)"
    and "mark j s' = (if j = Job3 \<and> period Job3 \<le> now - mark Job3 s then now else mark j s)"
  using assms by (cases j; auto simp: job3_def split: if_splits)+

lemma job9_sched:
  assumes "job9 now s = (s', evs)"
  shows "count_list evs (Fired j) = (if j = Job9 \<and> period Job9 \<le> now - mark Job9 s then 1 else 0)"
    and "mark j s' = (if j = Job9 \<and> period Job9 \<le> now - mark Job9 s then now else mark j s)"
  using assms by (cases j; auto simp: job9_def split: if_splits)+

lemma loop_cases:
  assumes "loop L s inp = Inr (s', evs)"
  obtains s1 loc ev1 s2 ev2 s3 ev3 ev4 where
    "job1 L (millis inp) (adc inp) s = (s1, loc, ev1)"
    "job2 L (millis inp) loc s1 = Inr (s2, ev2)"
    "job3 (millis inp) (bklgtctl inp) s2 = (s3, ev3)"
    "job9 (millis inp) s3 = (s', ev4)"
    "evs = ev1 @ ev2 @ ev3 @ ev4"
  using assms unfolding loop_def Let_def
  by (auto split: prod.splits sum.splits)

lemma loop_sched:
  assumes "loop L s inp = Inr (s', evs)"
  shows "count_list evs (Fired j) = (if period j \<le> millis inp - mark j s then 1 else 0)"
    and "mark j s' = (if period j \<le> millis inp - mark j s then millis inp else mark j s)"
proof -
  from assms obtain s1 loc ev1 s2 ev2 s3 ev3 ev4 where
    j1: "job1 L (millis inp) (adc inp) s = (s1, loc, ev1)" and
    j2: "job2 L (millis inp) loc s1 = Inr (s2, ev2)" and
    j3: "job3 (millis inp) (bklgtctl inp) s2 = (s3, ev3)" and
    j9: "job9 (millis inp) s3 = (s', ev4)" and
    evs: "evs = ev1 @ ev2 @ ev3 @ ev4"
    by (rule loop_cases)
  note c = job1_sched(1) [OF j1, of j] job2_sched(1) [OF j2, of j]
           job3_sched(1) [OF j3, of j] job9_sched(1) [OF j9, of j]
  note m = job1_sched(2) [OF j1] job2_sched(2) [OF j2]
           job3_sched(2) [OF j3] job9_sched(2) [OF j9]
  show "count_list evs (Fired j) = (if period j \<le> millis inp - mark j s then 1 else 0)"
    unfolding evs using c m by (cases j) (simp_all del: period.simps mark.simps)
  show "mark j s' = (if period j \<le> millis inp - mark j s then millis inp else mark j s)"
    using m by (cases j) (simp_all del: period.simps mark.simps)
qed


lemma Fired_in_iff:
  assumes "loop L s inp = Inr (s', evs)"
  shows "Fired j \<in> set evs \<longleftrightarrow> period j \<le> millis inp - mark j s"
proof -
  have "Fired j \<in> set evs \<longleftrightarrow> 0 < count_list evs (Fired j)"
    using count_list_0_iff [of evs "Fired j"] by auto
  then show ?thesis
    by (simp add: loop_sched(1) [OF assms])
qed

lemma spaced_Cons_iff:
  "spaced P (x # xs) \<longleftrightarrow> (\<forall>y\<in>set xs. x + P \<le> y) \<and> spaced P xs"
proof (induction xs arbitrary: x)
  case Nil
  then show ?case by simp
next
  case (Cons u us)
  show ?case
    unfolding spaced.simps Cons.IH [of u] by auto
qed

lemma spaced_filter: "spaced P xs \<Longrightarrow> spaced P (filter Q xs)"
  by (induction xs) (auto simp: spaced_Cons_iff)

lemma spaced_last: "spaced P (x # xs) \<Longrightarrow> x + P * length xs \<le> last (x # xs)"
proof (induction xs arbitrary: x)
  case Nil
  then show ?case by simp
next
  case (Cons u us)
  then have "x + P \<le> u" and "u + P * length us \<le> last (u # us)"
    by simp_all
  then show ?case by simp
qed

lemma spaced_window_count:
  assumes "spaced P ts" "0 < P"
  shows "length (in_window a W ts) \<le> W div P + 1"
proof (cases "in_window a W ts")
  case Nil
  then show ?thesis by simp
next
  case (Cons x xs)
  have sp: "spaced P (x # xs)"
    using spaced_filter [OF assms(1)] Cons unfolding in_window_def by metis
  have "x \<in> set (in_window a W ts)" and "last (x # xs) \<in> set (in_window a W ts)"
    unfolding Cons by (simp, rule last_in_set, simp)
  then have "a \<le> x" and "last (x # xs) \<le> a + W"
    by (simp_all add: in_window_def)
  with spaced_last [OF sp] have "P * length xs \<le> W"
    by linarith
  then have "length xs \<le> W div P"
    using assms(2) by (simp add: less_eq_div_iff_mult_less_eq mult.commute)
  then show ?thesis by (simp add: Cons)
qed

lemma clock_gap:
  assumes "period j \<le> (word_of_nat T :: ulong) - word_of_nat T0" "T0 \<le> T"
  shows "T0 + unat (period j) \<le> T"
proof -
  have "(word_of_nat T :: ulong) - word_of_nat T0 = word_of_nat (T - T0)"
    using assms(2) by (simp add: of_nat_diff)
  then have "unat (period j) \<le> unat (word_of_nat (T - T0) :: ulong)"
    using assms(1) by (simp add: word_le_nat_alt)
  also have "\<dots> \<le> T - T0"
    by (simp add: unat_of_nat)
  finally show ?thesis using assms(2) by simp
qed

lemma run_spaced:
  assumes "run L s inps = Inr (s', evss)"
    and "map millis inps = map word_of_nat Ts"
    and "sorted Ts"
    and "mark j s = word_of_nat T0"
    and "\<forall>T\<in>set Ts. T0 \<le> T"
  shows "spaced (unat (period j)) (T0 # fire_times j Ts evss)"
  using assms
proof (induction inps arbitrary: s Ts evss T0)
  case Nil
  then show ?case by (simp add: fire_times_def)
next
  case (Cons inp inps)
  from Cons.prems(2) obtain T Ts' where Ts: "Ts = T # Ts'"
    and T: "millis inp = word_of_nat T" and Ts': "map millis inps = map word_of_nat Ts'"
    by (cases Ts) auto
  from Cons.prems(1) obtain s1 evs evss' where
    l: "loop L s inp = Inr (s1, evs)" and r: "run L s1 inps = Inr (s', evss')"
    and evss: "evss = evs # evss'"
    by (auto split: sum.splits prod.splits)
  have sorted': "sorted Ts'" and le: "\<forall>U\<in>set Ts'. T \<le> U" and T0: "T0 \<le> T"
    using Cons.prems(3,5) by (simp_all add: Ts)
  show ?case
  proof (cases "period j \<le> millis inp - mark j s")
    case True
    then have f: "Fired j \<in> set evs" and m: "mark j s1 = word_of_nat T"
      using Fired_in_iff [OF l, of j] loop_sched(2) [OF l, of j] T by simp_all
    have gap: "T0 + unat (period j) \<le> T"
      using True clock_gap [of j T T0] T0 by (simp add: T Cons.prems(4))
    have "spaced (unat (period j)) (T # fire_times j Ts' evss')"
      by (rule Cons.IH [OF r Ts' sorted' m le])
    then show ?thesis
      using f gap by (simp add: fire_times_def Ts evss)
  next
    case False
    then have f: "Fired j \<notin> set evs" and m: "mark j s1 = word_of_nat T0"
      using Fired_in_iff [OF l, of j] loop_sched(2) [OF l, of j] Cons.prems(4) by simp_all
    have "\<forall>U\<in>set Ts'. T0 \<le> U"
      using le T0 by auto
    then have "spaced (unat (period j)) (T0 # fire_times j Ts' evss')"
      by (rule Cons.IH [OF r Ts' sorted' m])
    then show ?thesis
      using f by (simp add: fire_times_def Ts evss)
  qed
qed


lemma no_output_in_display [simp]:
  "SerialWrite t \<notin> set (showLCDPeriodData rnd c)"
  "SerialWrite t \<notin> set (showLCDBatteryData L v1 v2 v3 v4)"
  "DigitalWrite p b \<notin> set (showLCDPeriodData rnd c)"
  "DigitalWrite p b \<notin> set (showLCDBatteryData L v1 v2 v3 v4)"
  by (auto simp: showLCDPeriodData_def showLCDBatteryData_def Let_def)

lemma loop_SerialWrite:
  assumes "loop L s inp = Inr (s', evs)" "SerialWrite t \<in> set evs"
  shows "Fired Job2 \<in> set evs"
  using assms
  by (elim loop_cases)
     (auto simp: job1_def job2_def job3_def job9_def split: if_splits option.splits sum.splits)

lemma loop_DigitalWrite:
  assumes "loop L s inp = Inr (s', evs)" "DigitalWrite p b \<in> set evs"
  shows "Fired Job9 \<in> set evs"
  using assms
  by (elim loop_cases)
     (auto simp: job1_def job2_def job3_def job9_def split: if_splits option.splits sum.splits)

lemma loop_returns:
  assumes "\<not> JOB2CYCLE \<le> millis inp - timeMark2 s"
  shows "\<exists>s' evs. loop L s inp = Inr (s', evs)"
proof -
  obtain s1 loc ev1 where j1: "job1 L (millis inp) (adc inp) s = (s1, loc, ev1)"
    by (metis prod_cases3)
  have "timeMark2 s1 = timeMark2 s"
    using job1_sched(2) [OF j1, of Job2] by simp
  then have "job2 L (millis inp) loc s1 = Inr (s1, [])"
    using assms by (simp add: job2_def)
  then show ?thesis
    unfolding loop_def Let_def by (simp add: j1 split: prod.splits)
qed

lemma before_period:
  assumes "unat (millis inp) < unat (period j)" "mark j s = 0"
  shows "\<not> period j \<le> millis inp - mark j s"
  using assms by (simp add: word_le_nat_alt)

lemma run_silent:
  assumes "\<forall>inp\<in>set inps. unat (millis inp) < unat (period j)" "mark j s = 0"
    and "run L s inps = Inr (s', evss)"
  shows "\<forall>evs\<in>set evss. Fired j \<notin> set evs"
  using assms
proof (induction inps arbitrary: s evss)
  case Nil
  then show ?case by simp
next
  case (Cons inp inps)
  from Cons.prems(3) obtain s1 evs evss' where
    l: "loop L s inp = Inr (s1, evs)" and r: "run L s1 inps = Inr (s', evss')"
    and evss: "evss = evs # evss'"
    by (auto split: sum.splits prod.splits)
  have idle: "\<not> period j \<le> millis inp - mark j s"
    using Cons.prems(1,2) by (intro before_period) simp_all
  then have "Fired j \<notin> set evs" and "mark j s1 = 0"
    using Fired_in_iff [OF l, of j] loop_sched(2) [OF l, of j] Cons.prems(2) by simp_all
  moreover from this have "\<forall>evs\<in>set evss'. Fired j \<notin> set evs"
    using Cons.IH [OF _ _ r] Cons.prems(1) by simp
  ultimately show ?case by (simp add: evss)
qed

lemma run_returns:
  assumes "\<forall>inp\<in>set inps. unat (millis inp) < unat (period Job2)" "mark Job2 s = 0"
  shows "\<exists>s' evss. run L s inps = Inr (s', evss) \<and> length evss = length inps"
  using assms
proof (induction inps arbitrary: s)
  case Nil
  then show ?case by simp
next
  case (Cons inp inps)
  have idle: "\<not> period Job2 \<le> millis inp - mark Job2 s"
    using Cons.prems by (intro before_period) simp_all
  then obtain s1 evs where l: "loop L s inp = Inr (s1, evs)"
    using loop_returns [of inp s L] by auto
  have "mark Job2 s1 = 0"
    using loop_sched(2) [OF l, of Job2] idle Cons.prems(2) by simp
  then obtain s' evss where "run L s1 inps = Inr (s', evss)" "length evss = length inps"
    using Cons.IH [of s1] Cons.prems(1) by auto
  then show ?case by (simp add: l)
qed

lemma run_events_from_loop:
  assumes "run L s inps = Inr (s', evss)" "evs \<in> set evss"
  shows "\<exists>st inp st'. loop L st inp = Inr (st', evs)"
  using assms
proof (induction inps arbitrary: s evss)
  case Nil
  then show ?case by simp
next
  case (Cons inp inps)
  from Cons.prems(1) obtain s1 evs1 evss' where
    l: "loop L s inp = Inr (s1, evs1)" and r: "run L s1 inps = Inr (s', evss')"
    and evss: "evss = evs1 # evss'"
    by (auto split: sum.splits prod.splits)
  show ?case
  proof (cases "evs = evs1")
    case True
    then show ?thesis using l by blast
  next
    case False
    then have "evs \<in> set evss'" using Cons.prems(2) evss by simp
    then show ?thesis by (rule Cons.IH [OF r])
  qed
qed

text \<open>
  Claim C10. Every last-fire mark is 0 after reset and a job fires only when
  \<open>now - lastFire \<ge> period\<close>, so no job fires before one full period has elapsed: as
  long as every pass through \<^verbatim>\<open>loop()\<close> so far happened less than 300000 ms after reset,
  the run has not faulted, Job 1 has made no acquisition, Job 2 has not fired and nothing
  has been written to the serial port after the header of \<^verbatim>\<open>setup()\<close>; a job \<open>j\<close> has
  not fired while every pass happened before \<open>period j\<close>; and while every pass happened
  before 500 ms the heartbeat job has not fired and the LED pin has not been written.
\<close>

theorem startup_silence:
  assumes "\<forall>inp\<in>set inps. unat (millis inp) < 300000"
  shows "\<exists>s evss. run L initial_state inps = Inr (s, evss) \<and> length evss = length inps
     \<and> (\<forall>evs\<in>set evss. Fired Job1 \<notin> set evs \<and> Fired Job2 \<notin> set evs
            \<and> (\<forall>t. SerialWrite t \<notin> set evs))
     \<and> ((\<forall>inp\<in>set inps. unat (millis inp) < unat (period j))
            \<longrightarrow> (\<forall>evs\<in>set evss. Fired j \<notin> set evs))
     \<and> ((\<forall>inp\<in>set inps. unat (millis inp) < 500)
            \<longrightarrow> (\<forall>evs\<in>set evss. Fired Job9 \<notin> set evs \<and> (\<forall>b. DigitalWrite HB_LED b \<notin> set evs)))"
proof -
  have p: "\<forall>inp\<in>set inps. unat (millis inp) < unat (period Job1)"
    "\<forall>inp\<in>set inps. unat (millis inp) < unat (period Job2)"
    using assms by (simp_all add: JOB1CYCLE_def JOB2CYCLE_def)
  have m: "mark k initial_state = 0" for k
    by (cases k) (simp_all add: initial_state_def)
  from run_returns [OF p(2) m] obtain s evss where
    r: "run L initial_state inps = Inr (s, evss)" and len: "length evss = length inps"
    by blast
  have q1: "\<forall>evs\<in>set evss. Fired Job1 \<notin> set evs"
    by (rule run_silent [OF p(1) m r])
  have q2: "\<forall>evs\<in>set evss. Fired Job2 \<notin> set evs"
    by (rule run_silent [OF p(2) m r])
  have q3: "\<forall>evs\<in>set evss. \<forall>t. SerialWrite t \<notin> set evs"
    using q2 run_events_from_loop [OF r] loop_SerialWrite by blast
  have q4: "(\<forall>inp\<in>set inps. unat (millis inp) < unat (period j))
     \<longrightarrow> (\<forall>evs\<in>set evss. Fired j \<notin> set evs)"
    using run_silent [OF _ m r] by blast
  have q5: "(\<forall>inp\<in>set inps. unat (millis inp) < 500)
     \<longrightarrow> (\<forall>evs\<in>set evss. Fired Job9 \<notin> set evs \<and> (\<forall>b. DigitalWrite HB_LED b \<notin> set evs))"
  proof
    assume "\<forall>inp\<in>set inps. unat (millis inp) < 500"
    then have "\<forall>inp\<in>set inps. unat (millis inp) < unat (period Job9)"
      by (simp add: JOB9CYCLE_def)
    then have "\<forall>evs\<in>set evss. Fired Job9 \<notin> set evs"
      by (rule run_silent [OF _ m r])
    then show "\<forall>evs\<in>set evss. Fired Job9 \<notin> set evs \<and> (\<forall>b. DigitalWrite HB_LED b \<notin> set evs)"
      using run_events_from_loop [OF r] loop_DigitalWrite by blast
  qed
  from r len q1 q2 q3 q4 q5 show ?thesis by blast
qed


lemma period_pos: "0 < unat (period j)"
  by (cases j) (simp_all add: JOB1CYCLE_def JOB2CYCLE_def JOB3CYCLE_def JOB9CYCLE_def)

text \<open>
  Claim C6, as the code has it. In every pass through \<^verbatim>\<open>loop()\<close> a job fires exactly
  when \<open>now - lastFire \<ge> period\<close> in 32-bit wrap-around arithmetic; firing sets its mark
  to \<open>now\<close> (not to \<open>lastFire + period\<close>); and it fires at most once in the pass. In a
  run from reset whose passes happen at the non-decreasing times \<open>Ts\<close>, two firings of
  a job are at least one period apart, and in any window of length \<open>W\<close> a job of period
  \<open>P\<close> fires at most \<open>W div P + 1\<close> times. There is no lower bound: every late pass
  delays all later firings of the job.
\<close>

theorem scheduler_rule:
  "(loop L s inp = Inr (s', evs) \<longrightarrow>
      (Fired j \<in> set evs \<longleftrightarrow> millis inp - mark j s \<ge> period j)
      \<and> mark j s' = (if Fired j \<in> set evs then millis inp else mark j s)
      \<and> count_list evs (Fired j) \<le> 1)
   \<and> (run L initial_state inps = Inr (sN, evss) \<and> map millis inps = map word_of_nat Ts \<and> sorted Ts \<longrightarrow>
      spaced (unat (period j)) (fire_times j Ts evss)
      \<and> length (in_window a W (fire_times j Ts evss)) \<le> W div unat (period j) + 1)"
proof (intro conjI impI)
  assume l: "loop L s inp = Inr (s', evs)"
  show f: "Fired j \<in> set evs \<longleftrightarrow> millis inp - mark j s \<ge> period j"
    by (rule Fired_in_iff [OF l])
  show "mark j s' = (if Fired j \<in> set evs then millis inp else mark j s)"
    unfolding f by (rule loop_sched(2) [OF l])
  show "count_list evs (Fired j) \<le> 1"
    by (simp add: loop_sched(1) [OF l])
next
  assume "run L initial_state inps = Inr (sN, evss) \<and> map millis inps = map word_of_nat Ts \<and> sorted Ts"
  then have r: "run L initial_state inps = Inr (sN, evss)"
    and t: "map millis inps = map word_of_nat Ts" and srt: "sorted Ts"
    by simp_all
  have m: "mark j initial_state = word_of_nat 0"
    by (cases j) (simp_all add: initial_state_def)
  have "spaced (unat (period j)) (0 # fire_times j Ts evss)"
    by (rule run_spaced [OF r t srt m]) simp
  then show sp: "spaced (unat (period j)) (fire_times j Ts evss)"
    by (simp add: spaced_Cons_iff)
  show "length (in_window a W (fire_times j Ts evss)) \<le> W div unat (period j) + 1"
    by (rule spaced_window_count [OF sp period_pos])
qed

lemmas eval_defs = loop_def job1_def job2_def job3_def job9_def Let_def pass_at_def
  initial_state_def JOB1CYCLE_def JOB2CYCLE_def JOB3CYCLE_def JOB9CYCLE_def fires_of_def
  fire_times_def HB_LED_def

lemma fires_of_SomeD:
  "fires_of L s inps Ts j = Some fs \<Longrightarrow> \<exists>s' evss. run L s inps = Inr (s', evss) \<and> fire_times j Ts evss = fs"
  by (auto simp: fires_of_def split: sum.splits)

theorem scheduler_rule_witness:
  "loop ref_platform (initial_state\<lparr>timeMark9 := 4294967196\<rparr>) (pass_at 400)
     = Inr (initial_state\<lparr>timeMark9 := 400, hbStatus := True\<rparr>,
            [Fired Job9, DigitalWrite HB_LED True, WatchdogReset])
   \<and> millis (pass_at 400) - mark Job9 (initial_state\<lparr>timeMark9 := 4294967196\<rparr>) = 500
   \<and> fires_of ref_platform initial_state (map pass_at [0, 499, 500, 999, 1000, 1600])
        [0, 499, 500, 999, 1000, 1600] Job9 = Some [500, 1000, 1600]
   \<and> sorted [0, 499, 500, 999, 1000, 1600 :: nat]
   \<and> spaced (unat (period Job9)) [500, 1000, 1600]
   \<and> length (in_window 400 700 [500, 1000, 1600]) \<le> 700 div unat (period Job9) + 1"
proof -
  let ?s = "initial_state\<lparr>timeMark9 := 4294967196\<rparr>"
  let ?Ts = "[0, 499, 500, 999, 1000, 1600 :: nat]"
  have l: "loop ref_platform ?s (pass_at 400)
     = Inr (initial_state\<lparr>timeMark9 := 400, hbStatus := True\<rparr>,
            [Fired Job9, DigitalWrite HB_LED True, WatchdogReset])"
    by (simp add: eval_defs)
  have d: "millis (pass_at 400) - mark Job9 ?s = 500"
    by (simp add: pass_at_def)
  have f: "fires_of ref_platform initial_state (map pass_at ?Ts) ?Ts Job9 = Some [500, 1000, 1600]"
    by (simp add: eval_defs)
  then obtain sN evss where r: "run ref_platform initial_state (map pass_at ?Ts) = Inr (sN, evss)"
    and ft: "fire_times Job9 ?Ts evss = [500, 1000, 1600]"
    using fires_of_SomeD by blast
  have t: "map millis (map pass_at ?Ts) = map word_of_nat ?Ts"
    by (simp add: pass_at_def)
  have srt: "sorted ?Ts" by simp
  from scheduler_rule [of ref_platform ?s "pass_at 400" _ _ Job9 "map pass_at ?Ts" sN evss ?Ts 400 700]
    l r t srt
  have "spaced (unat (period Job9)) (fire_times Job9 ?Ts evss)
      \<and> length (in_window 400 700 (fire_times Job9 ?Ts evss)) \<le> 700 div unat (period Job9) + 1"
    by blast
  with l d f srt show ?thesis
    unfolding ft by blast
qed

text \<open>
  The count is not within 1 of \<open>W div P\<close>: with passes every 900 ms the heartbeat job
  (period 500 ms) fires in every pass, 5 times in the window from 900 to 4500, where
  \<open>3600 div 500 = 7\<close>. The clock is increasing and no pass is later than the watchdog
  allows.
\<close>

theorem scheduler_window_counterexample:
  "fires_of ref_platform initial_state (map pass_at [900, 1800, 2700, 3600, 4500])
        [900, 1800, 2700, 3600, 4500] Job9 = Some [900, 1800, 2700, 3600, 4500]
   \<and> sorted [900, 1800, 2700, 3600, 4500 :: nat]
   \<and> length (in_window 900 3600 [900, 1800, 2700, 3600, 4500]) = 5
   \<and> 3600 div unat (period Job9) = 7
   \<and> \<not> (3600 div unat (period Job9) - 1 \<le> length (in_window 900 3600 [900, 1800, 2700, 3600, 4500]))"
  by (simp add: eval_defs in_window_def)

theorem startup_silence_witness:
  "list_all (\<lambda>inp. unat (millis inp) < 300000) (map pass_at [120, 499, 1100, 299999])
   \<and> (\<exists>s evss. run ref_platform initial_state (map pass_at [120, 499, 1100, 299999]) = Inr (s, evss)
        \<and> length evss = 4
        \<and> (\<forall>evs\<in>set evss. Fired Job1 \<notin> set evs \<and> Fired Job2 \<notin> set evs
              \<and> (\<forall>t. SerialWrite t \<notin> set evs)))
   \<and> list_all (\<lambda>inp. unat (millis inp) < 500) (map pass_at [120, 499])
   \<and> (\<exists>s evss. run ref_platform initial_state (map pass_at [120, 499]) = Inr (s, evss)
        \<and> (\<forall>evs\<in>set evss. Fired Job9 \<notin> set evs \<and> (\<forall>b. DigitalWrite HB_LED b \<notin> set evs)))"
proof -
  have h1: "\<forall>inp\<in>set (map pass_at [120, 499, 1100, 299999]). unat (millis inp) < 300000"
    by (simp add: pass_at_def)
  have h2: "\<forall>inp\<in>set (map pass_at [120, 499]). unat (millis inp) < 300000"
    and h3: "\<forall>inp\<in>set (map pass_at [120, 499]). unat (millis inp) < 500"
    by (simp_all add: pass_at_def)
  from startup_silence [OF h1, of ref_platform Job1]
  have a: "\<exists>s evss. run ref_platform initial_state (map pass_at [120, 499, 1100, 299999]) = Inr (s, evss)
        \<and> length evss = 4
        \<and> (\<forall>evs\<in>set evss. Fired Job1 \<notin> set evs \<and> Fired Job2 \<notin> set evs
              \<and> (\<forall>t. SerialWrite t \<notin> set evs))"
    by auto
  from startup_silence [OF h2, of ref_platform Job9] h3
  have b: "\<exists>s evss. run ref_platform initial_state (map pass_at [120, 499]) = Inr (s, evss)
        \<and> (\<forall>evs\<in>set evss. Fired Job9 \<notin> set evs \<and> (\<forall>b. DigitalWrite HB_LED b \<notin> set evs))"
    by blast
  from a b h1 h3 show ?thesis
    by (simp add: list_all_iff)
qed

subsection \<open>The telemetry frame\<close>

lemma of_char_eq_0: "(of_char c :: nat) = 0 \<longleftrightarrow> c = CHR 0x00"
proof -
  have z: "(of_char (CHR 0x00) :: nat) = 0" by simp
  have "(of_char c :: nat) = of_char (CHR 0x00) \<longleftrightarrow> c = CHR 0x00"
    by (rule of_char_eq_iff)
  then show ?thesis unfolding z .
qed

lemma unat_byte_of_char: "unat (byte_of_char c) = of_char c"
  by (simp add: byte_of_char_def unat_of_nat)

lemma byte_of_char_eq_0: "byte_of_char c = 0 \<longleftrightarrow> c = CHR 0x00"
proof -
  have "byte_of_char c = 0 \<longleftrightarrow> unat (byte_of_char c) = 0"
    by (simp add: unat_eq_zero)
  then show ?thesis
    by (simp add: unat_byte_of_char of_char_eq_0)
qed

lemma char_of_byte_of_char [simp]: "char_of_byte (byte_of_char c) = c"
  by (simp add: char_of_byte_def unat_byte_of_char)

lemma c_string_no_NUL: "CHR 0x00 \<notin> set (c_string s)"
  unfolding c_string_def by (induction s) auto

lemma join_commas_no_NUL:
  "\<forall>s\<in>set ss. CHR 0x00 \<notin> set s \<Longrightarrow> CHR 0x00 \<notin> set (join_commas ss)"
  by (induction ss rule: join_commas.induct) auto

lemma bytes_no_NUL: "CHR 0x00 \<notin> set s \<Longrightarrow> 0 \<notin> set (map byte_of_char s)"
  by (auto simp: byte_of_char_eq_0)

lemma buffer_string_bytes:
  "CHR 0x00 \<notin> set s \<Longrightarrow> buffer_string (map byte_of_char s @ 0 # rest) = s"
proof -
  assume "CHR 0x00 \<notin> set s"
  then have "takeWhile (\<lambda>b. b \<noteq> 0) (map byte_of_char s @ 0 # rest) = map byte_of_char s"
    by (induction s) (auto simp: byte_of_char_eq_0)
  then show ?thesis
    by (simp add: buffer_string_def comp_def)
qed

lemma value_string_no_NUL: "CHR 0x00 \<notin> set (value_string L vs)"
  unfolding value_string_def
  by (rule join_commas_no_NUL) (simp add: field_of_def c_string_no_NUL)

lemma sprintf_5s_fits:
  assumes "length (join_commas [s1, s2, s3, s4, s5]) < length buf"
  shows "sprintf_5s buf s1 s2 s3 s4 s5
       = Inr (map byte_of_char (join_commas [s1, s2, s3, s4, s5]) @ 0 #
              drop (Suc (length (join_commas [s1, s2, s3, s4, s5]))) buf)"
  using assms by (simp add: sprintf_5s_def Let_def)

lemma sendConsoleData_frame:
  assumes "list_all (\<lambda>v. length (field_of L v) \<le> 7) [r, v1, v2, v3, v4]"
    and "length (value_string L [r, v1, v2, v3, v4]) < length buf"
  shows "sendConsoleData L buf r v1 v2 v3 v4
       = Inr (map byte_of_char (value_string L [r, v1, v2, v3, v4]) @ 0 #
                drop (Suc (length (value_string L [r, v1, v2, v3, v4]))) buf,
              value_string L [r, v1, v2, v3, v4] @ '','' @
                printNumber (unat (crc8_spec (map byte_of_char (value_string L [r, v1, v2, v3, v4]))))
                @ CRLF)"
proof -
  let ?vs = "value_string L [r, v1, v2, v3, v4]"
  have vs: "?vs = join_commas [field_of L r, field_of L v1, field_of L v2, field_of L v3, field_of L v4]"
    by (simp add: value_string_def)
  have fit: "\<not> list_ex (\<lambda>s. 7 < length s)
      [field_of L r, field_of L v1, field_of L v2, field_of L v3, field_of L v4]"
    using assms(1) by (simp add: not_less)
  have sp: "sprintf_5s buf (field_of L r) (field_of L v1) (field_of L v2) (field_of L v3) (field_of L v4)
       = Inr (map byte_of_char ?vs @ 0 # drop (Suc (length ?vs)) buf)"
    using assms(2) unfolding vs by (rule sprintf_5s_fits)
  have nz: "0 \<notin> set (map byte_of_char ?vs)"
    by (rule bytes_no_NUL [OF value_string_no_NUL])
  have crc: "calcCRC8 (map byte_of_char ?vs @ 0 # drop (Suc (length ?vs)) buf)
       = Some (crc8_spec (map byte_of_char ?vs))"
    by (rule calcCRC8_terminated [OF nz])
  have bs: "buffer_string (map byte_of_char ?vs @ 0 # drop (Suc (length ?vs)) buf) = ?vs"
    by (rule buffer_string_bytes [OF value_string_no_NUL])
  show ?thesis
    unfolding sendConsoleData_def Let_def field_of_def [symmetric]
    by (simp only: fit if_False sp sum.case crc option.case bs)
qed

text \<open>When \<^verbatim>\<open>sendConsoleData\<close> returns, nothing has overflowed.\<close>

lemma sendConsoleData_InrD:
  assumes "sendConsoleData L buf r v1 v2 v3 v4 = Inr (buf', out)"
  shows "list_all (\<lambda>v. length (field_of L v) \<le> 7) [r, v1, v2, v3, v4]"
    and "length (value_string L [r, v1, v2, v3, v4]) < length buf"
  using assms
  by (auto simp: sendConsoleData_def sprintf_5s_def Let_def field_of_def value_string_def
      split: if_splits sum.splits option.splits)

lemma sendConsoleData_shape:
  assumes "sendConsoleData L buf r v1 v2 v3 v4 = Inr (buf', out)"
  shows "out = value_string L [r, v1, v2, v3, v4] @ '','' @
           printNumber (unat (crc8_spec (map byte_of_char (value_string L [r, v1, v2, v3, v4]))))
           @ CRLF"
  using assms sendConsoleData_frame [OF sendConsoleData_InrD [OF assms]] by simp

lemma bench_readings:
  "getADCReading (\<lambda>x. x) (bench_adc A7) = 694"
  "getADCReading (\<lambda>x. x) (bench_adc A0) = 821"
  "getADCReading (\<lambda>x. x) (bench_adc A1) = 752"
  "getADCReading (\<lambda>x. x) (bench_adc A2) = 701"
  "getADCReading (\<lambda>x. x) (bench_adc A3) = 1"
proof -
  have r: "adc_in_range (bench_adc p)" for p
    by (cases p) (simp_all add: adc_in_range_def bench_adc_def ADC_MAX_def)
  show "getADCReading (\<lambda>x. x) (bench_adc A7) = 694"
    "getADCReading (\<lambda>x. x) (bench_adc A0) = 821"
    "getADCReading (\<lambda>x. x) (bench_adc A1) = 752"
    "getADCReading (\<lambda>x. x) (bench_adc A2) = 701"
    "getADCReading (\<lambda>x. x) (bench_adc A3) = 1"
    unfolding getADCReading_closed_form [OF binary32_rounding_exact r]
    by (simp_all add: samples_sum_def bench_adc_def)
qed

lemma bench_locals:
  "job1_body (fp_round ref_platform) bench_adc =
     \<lparr>adcOneLvl = Fin (33 / 6940), adcRef50v = Fin (8448 / 1735), adcFactor = Fin (99 / 6940),
      myVoltsB1 = Fin (81279 / 6940), myVoltsB2 = Fin (18612 / 1735),
      myVoltsB3 = Fin (69399 / 6940), myVoltsB4 = Fin (99 / 6940)\<rparr>"
  by (simp add: job1_body_def job1_assign_def ref_platform_def AVRFVMON_def BAT1VMON_def
      BAT2VMON_def BAT3VMON_def BAT4VMON_def bench_readings AVREF_def float_of_int_def
      ADCLEVELS_def VDIVRATIO_def Let_def)

lemma digit_chars:
  "digit_char 0 = CHR ''0''" "digit_char 1 = CHR ''1''" "digit_char 2 = CHR ''2''"
  "digit_char 3 = CHR ''3''" "digit_char 4 = CHR ''4''" "digit_char 5 = CHR ''5''"
  "digit_char 6 = CHR ''6''" "digit_char 7 = CHR ''7''" "digit_char 8 = CHR ''8''"
  "digit_char 9 = CHR ''9''" "digit_char (Suc 0) = CHR ''1''"
  by (simp_all add: digit_char_def char_of_eq_iff)

lemma frac_digits_2:
  "frac_digits r 2 =
     [digit_char (nat \<lfloor>r * 10\<rfloor>),
      digit_char (nat \<lfloor>(r * 10 - of_nat (nat \<lfloor>r * 10\<rfloor>)) * 10\<rfloor>)]"
  by (simp add: numeral_2_eq_2 Let_def)

lemmas render_defs = field_of_def c_string_def ref_platform_def dtostrf_ref_def render_fixed_def
  Let_def printNumber.simps digit_chars frac_digits_2

lemma bench_fields:
  "field_of ref_platform (Fin (8448 / 1735)) = ''4.87''"
  "field_of ref_platform (Fin (81279 / 6940)) = ''11.71''"
  "field_of ref_platform (Fin (18612 / 1735)) = ''10.73''"
  "field_of ref_platform (Fin (69399 / 6940)) = ''10.00''"
  "field_of ref_platform (Fin (99 / 6940)) = ''0.01''"
  by (simp_all add: render_defs)

lemma bench_crc: "crc8_spec (map byte_of_char ''4.87,11.71,10.73,10.00,0.01'') = 251"
  by code_simp

lemma print_251: "printNumber 251 = ''251''"
  by (simp add: printNumber.simps digit_chars)


lemma serial_text_append: "serial_text (xs @ ys) = serial_text xs @ serial_text ys"
  by (induction xs rule: serial_text.induct) simp_all

lemma serial_text_display [simp]:
  "serial_text (showLCDPeriodData rnd c) = []"
  "serial_text (showLCDBatteryData L v1 v2 v3 v4) = []"
  by (simp_all add: showLCDPeriodData_def showLCDBatteryData_def Let_def)

lemma serial_text_job3: "job3 now sw s = (s', evs) \<Longrightarrow> serial_text evs = []"
  by (auto simp: job3_def split: if_splits)

lemma serial_text_job9: "job9 now s = (s', evs) \<Longrightarrow> serial_text evs = []"
  by (auto simp: job9_def split: if_splits)

lemma sendConsoleData_length:
  assumes "sendConsoleData L buf r v1 v2 v3 v4 = Inr (buf', out)"
  shows "length buf' = length buf"
  using assms
  by (auto simp: sendConsoleData_def sprintf_5s_def Let_def split: if_splits sum.splits option.splits)

lemma loop_txBuffer_length:
  assumes "loop L s inp = Inr (s', evs)"
  shows "length (txBuffer s') = length (txBuffer s)"
proof -
  from assms obtain s1 loc ev1 s2 ev2 s3 ev3 ev4 where
    j1: "job1 L (millis inp) (adc inp) s = (s1, loc, ev1)" and
    j2: "job2 L (millis inp) loc s1 = Inr (s2, ev2)" and
    j3: "job3 (millis inp) (bklgtctl inp) s2 = (s3, ev3)" and
    j9: "job9 (millis inp) s3 = (s', ev4)"
    by (rule loop_cases)
  have "txBuffer s1 = txBuffer s"
    using j1 by (auto simp: job1_def split: if_splits)
  moreover have "length (txBuffer s2) = length (txBuffer s1)"
    using j2 by (auto simp: job2_def split: if_splits option.splits sum.splits
        dest: sendConsoleData_length)
  moreover have "txBuffer s3 = txBuffer s2"
    using j3 by (auto simp: job3_def split: if_splits)
  moreover have "txBuffer s' = txBuffer s3"
    using j9 by (auto simp: job9_def split: if_splits)
  ultimately show ?thesis by simp
qed

lemma reachable_invariant:
  assumes "reachable L s"
  shows "timeMark1 s = timeMark2 s \<and> length (txBuffer s) = TXBUFFERMAX + 1"
  using assms
proof (induction rule: reachable.induct)
  case reachable_initial
  then show ?case by (simp add: initial_state_def)
next
  case (reachable_loop s inp s' evs)
  have "mark Job1 s' = mark Job2 s'"
    unfolding loop_sched(2) [OF reachable_loop.hyps(2)]
    using reachable_loop.IH by (simp add: JOB1CYCLE_def JOB2CYCLE_def)
  then show ?case
    using reachable_loop.IH loop_txBuffer_length [OF reachable_loop.hyps(2)] by simp
qed

lemma loop_report:
  assumes "loop L s inp = Inr (s', evs)" "timeMark1 s = timeMark2 s" "Fired Job2 \<in> set evs"
  shows "\<exists>buf. sendConsoleData L (txBuffer s)
            (adcRef50v (job1_body (fp_round L) (adc inp)))
            (myVoltsB1 (job1_body (fp_round L) (adc inp)))
            (myVoltsB2 (job1_body (fp_round L) (adc inp)))
            (myVoltsB3 (job1_body (fp_round L) (adc inp)))
            (myVoltsB4 (job1_body (fp_round L) (adc inp))) = Inr (buf, serial_text evs)"
    and "set (showLCDBatteryData L
            (myVoltsB1 (job1_body (fp_round L) (adc inp)))
            (myVoltsB2 (job1_body (fp_round L) (adc inp)))
            (myVoltsB3 (job1_body (fp_round L) (adc inp)))
            (myVoltsB4 (job1_body (fp_round L) (adc inp)))) \<subseteq> set evs"
proof -
  from assms(1) obtain s1 loc ev1 s2 ev2 s3 ev3 ev4 where
    j1: "job1 L (millis inp) (adc inp) s = (s1, loc, ev1)" and
    j2: "job2 L (millis inp) loc s1 = Inr (s2, ev2)" and
    j3: "job3 (millis inp) (bklgtctl inp) s2 = (s3, ev3)" and
    j9: "job9 (millis inp) s3 = (s', ev4)" and
    evs: "evs = ev1 @ ev2 @ ev3 @ ev4"
    by (rule loop_cases)
  let ?v = "job1_body (fp_round L) (adc inp)"
  have g2: "JOB2CYCLE \<le> millis inp - timeMark2 s"
    using Fired_in_iff [OF assms(1), of Job2] assms(3) by simp
  then have g1: "JOB1CYCLE \<le> millis inp - timeMark1 s"
    using assms(2) by (simp add: JOB1CYCLE_def JOB2CYCLE_def)
  from j1 g1 have s1: "txBuffer s1 = txBuffer s" "timeMark2 s1 = timeMark2 s"
    and loc: "loc = Some ?v" and ev1: "serial_text ev1 = []"
    by (auto simp: job1_def)
  from j2 g2 s1 loc obtain buf out where
    sc: "sendConsoleData L (txBuffer s) (adcRef50v ?v) (myVoltsB1 ?v) (myVoltsB2 ?v)
           (myVoltsB3 ?v) (myVoltsB4 ?v) = Inr (buf, out)"
    and ev2: "ev2 = [Fired Job2, SerialWrite out]
               @ showLCDPeriodData (fp_round L) (adcReadCounter s1)
               @ showLCDBatteryData L (myVoltsB1 ?v) (myVoltsB2 ?v) (myVoltsB3 ?v) (myVoltsB4 ?v)"
    by (auto simp: job2_def split: sum.splits)
  have "serial_text evs = out"
    unfolding evs ev2
    by (simp add: serial_text_append ev1 serial_text_job3 [OF j3] serial_text_job9 [OF j9])
  with sc show "\<exists>buf. sendConsoleData L (txBuffer s) (adcRef50v ?v) (myVoltsB1 ?v) (myVoltsB2 ?v)
           (myVoltsB3 ?v) (myVoltsB4 ?v) = Inr (buf, serial_text evs)"
    by blast
  show "set (showLCDBatteryData L (myVoltsB1 ?v) (myVoltsB2 ?v) (myVoltsB3 ?v) (myVoltsB4 ?v)) \<subseteq> set evs"
    unfolding evs ev2 by auto
qed

lemma loop_no_uninitialised:
  assumes "timeMark1 s = timeMark2 s"
  shows "loop L s inp \<noteq> Inl UninitialisedRead"
proof (cases "JOB2CYCLE \<le> millis inp - timeMark2 s")
  case False
  then show ?thesis using loop_returns [OF False, of L] by auto
next
  case True
  then have g1: "JOB1CYCLE \<le> millis inp - timeMark1 s"
    using assms by (simp add: JOB1CYCLE_def JOB2CYCLE_def)
  show ?thesis
    unfolding loop_def Let_def
    using g1 True assms
    by (auto simp: job1_def job2_def sendConsoleData_def sprintf_5s_def Let_def
        split: sum.splits prod.splits option.splits if_splits)
qed






lemma bench_value_string:
  "value_string ref_platform
     [Fin (8448 / 1735), Fin (81279 / 6940), Fin (18612 / 1735), Fin (69399 / 6940), Fin (99 / 6940)]
   = ''4.87,11.71,10.73,10.00,0.01''"
  by (simp add: value_string_def bench_fields)

lemma bench_frame:
  "sendConsoleData ref_platform (replicate 33 0)
         (Fin (8448 / 1735)) (Fin (81279 / 6940)) (Fin (18612 / 1735)) (Fin (69399 / 6940)) (Fin (99 / 6940))
       = Inr (map byte_of_char ''4.87,11.71,10.73,10.00,0.01'' @ 0 # replicate 5 0,
              ''4.87,11.71,10.73,10.00,0.01,251'' @ CRLF)"
proof -
  have b: "list_all (\<lambda>v. length (field_of ref_platform v) \<le> 7)
      [Fin (8448 / 1735), Fin (81279 / 6940), Fin (18612 / 1735), Fin (69399 / 6940), Fin (99 / 6940)]"
    by (simp add: bench_fields)
  have c: "length (value_string ref_platform
      [Fin (8448 / 1735), Fin (81279 / 6940), Fin (18612 / 1735), Fin (69399 / 6940), Fin (99 / 6940)])
      < length (replicate 33 (0 :: byte))"
    by (simp add: bench_value_string)
  show ?thesis
    unfolding sendConsoleData_frame [OF b c] bench_value_string bench_crc
    by (simp add: print_251)
qed

text \<open>
  Claim C2. For every NUL-terminated byte string (the bytes \<open>s\<close> hold no NUL and are
  followed in memory by a NUL and anything else), \<^verbatim>\<open>calcCRC8\<close> returns, and what it
  returns is the CRC-8 of the stated algorithm over \<open>s\<close>: accumulator 0 at the start,
  then for each byte in order and each of its 8 bits, least significant first, the
  feedback bit, the right shift, the conditional XOR with 0x8C and the shift of the byte.
  The result is a value in 0..255. The checksum that \<^verbatim>\<open>sendConsoleData\<close> puts in a frame
  is this CRC-8 of the characters of the frame's value string, so an independent
  implementation of the algorithm over the value string reproduces it.
\<close>

theorem calcCRC8_is_spec_crc8:
  "(0 \<notin> set s \<longrightarrow>
      calcCRC8 (s @ 0 # rest) = Some (crc8_spec s) \<and> unat (crc8_spec s) \<le> 255)
   \<and> (sendConsoleData L buf r v1 v2 v3 v4 = Inr (buf', out) \<longrightarrow>
      out = value_string L [r, v1, v2, v3, v4] @ '','' @
            printNumber (unat (crc8_spec (map byte_of_char (value_string L [r, v1, v2, v3, v4]))))
            @ CRLF)"
proof (intro conjI impI)
  assume nz: "0 \<notin> set s"
  then show "calcCRC8 (s @ 0 # rest) = Some (crc8_spec s)"
    by (rule calcCRC8_terminated)
next
  have "unat (crc8_spec s) < 2 ^ LENGTH(8)"
    by (rule unsigned_less)
  then show "unat (crc8_spec s) \<le> 255" by simp
next
  assume "sendConsoleData L buf r v1 v2 v3 v4 = Inr (buf', out)"
  then show "out = value_string L [r, v1, v2, v3, v4] @ '','' @
            printNumber (unat (crc8_spec (map byte_of_char (value_string L [r, v1, v2, v3, v4]))))
            @ CRLF"
    by (rule sendConsoleData_shape)
qed

theorem calcCRC8_is_spec_crc8_witness:
  "(0 :: byte) \<notin> set (map byte_of_char ''1.00'')
   \<and> calcCRC8 (map byte_of_char ''1.00'' @ 0 # [7, 9]) = Some 52
   \<and> crc8_spec (map byte_of_char ''1.00'') = 52
   \<and> sendConsoleData ref_platform (replicate 33 0)
         (Fin (8448 / 1735)) (Fin (81279 / 6940)) (Fin (18612 / 1735)) (Fin (69399 / 6940)) (Fin (99 / 6940))
       = Inr (map byte_of_char ''4.87,11.71,10.73,10.00,0.01'' @ 0 # replicate 5 0,
              ''4.87,11.71,10.73,10.00,0.01,251'' @ CRLF)
   \<and> ''4.87,11.71,10.73,10.00,0.01,251'' @ CRLF
       = ''4.87,11.71,10.73,10.00,0.01'' @ '','' @
         printNumber (unat (crc8_spec (map byte_of_char ''4.87,11.71,10.73,10.00,0.01''))) @ CRLF"
proof -
  have nz: "(0 :: byte) \<notin> set (map byte_of_char ''1.00'')"
    by code_simp
  have v: "crc8_spec (map byte_of_char ''1.00'') = 52"
    by code_simp
  note t = calcCRC8_is_spec_crc8 [of "map byte_of_char ''1.00''" "[7, 9]" ref_platform
      "replicate 33 0" "Fin (8448 / 1735)" "Fin (81279 / 6940)" "Fin (18612 / 1735)"
      "Fin (69399 / 6940)" "Fin (99 / 6940)"
      "map byte_of_char ''4.87,11.71,10.73,10.00,0.01'' @ 0 # replicate 5 0"
      "''4.87,11.71,10.73,10.00,0.01,251'' @ CRLF"]
  have c: "calcCRC8 (map byte_of_char ''1.00'' @ 0 # [7, 9]) = Some 52"
    using t nz v by simp
  have o: "''4.87,11.71,10.73,10.00,0.01,251'' @ CRLF
       = ''4.87,11.71,10.73,10.00,0.01'' @ '','' @
         printNumber (unat (crc8_spec (map byte_of_char ''4.87,11.71,10.73,10.00,0.01''))) @ CRLF"
    using t bench_frame unfolding bench_value_string by blast
  from nz c v bench_frame o show ?thesis
    by (intro conjI)
qed



text \<open>
  Claim C9. The frame is a function of the five voltages alone: two invocations of
  \<^verbatim>\<open>sendConsoleData\<close> with the same voltages send the same characters, checksum
  included (or stop at the same fault), whatever the transmit buffer held before.
\<close>

theorem sendConsoleData_deterministic:
  assumes "length buf1 = TXBUFFERMAX + 1" "length buf2 = TXBUFFERMAX + 1"
  shows "map_sum id snd (sendConsoleData L buf1 r v1 v2 v3 v4)
       = map_sum id snd (sendConsoleData L buf2 r v1 v2 v3 v4)"
proof (cases "list_all (\<lambda>v. length (field_of L v) \<le> 7) [r, v1, v2, v3, v4]
              \<and> length (value_string L [r, v1, v2, v3, v4]) \<le> TXBUFFERMAX")
  case True
  then show ?thesis
    using assms sendConsoleData_frame [of L r v1 v2 v3 v4 buf1]
      sendConsoleData_frame [of L r v1 v2 v3 v4 buf2] by simp
next
  case False
  have "sendConsoleData L buf r v1 v2 v3 v4 = Inl BufferOverflow"
    if "length buf = TXBUFFERMAX + 1" for buf
    using False that
    by (auto simp: sendConsoleData_def sprintf_5s_def Let_def value_string_def field_of_def not_le)
  then show ?thesis using assms by simp
qed

theorem sendConsoleData_deterministic_witness:
  "length (replicate 33 (0 :: byte)) = TXBUFFERMAX + 1
   \<and> length (replicate 33 (255 :: byte)) = TXBUFFERMAX + 1
   \<and> map_sum id snd (sendConsoleData ref_platform (replicate 33 0)
         (Fin (8448 / 1735)) (Fin (81279 / 6940)) (Fin (18612 / 1735)) (Fin (69399 / 6940)) (Fin (99 / 6940)))
     = map_sum id snd (sendConsoleData ref_platform (replicate 33 255)
         (Fin (8448 / 1735)) (Fin (81279 / 6940)) (Fin (18612 / 1735)) (Fin (69399 / 6940)) (Fin (99 / 6940)))"
proof -
  have a: "length (replicate 33 (0 :: byte)) = TXBUFFERMAX + 1"
    and b: "length (replicate 33 (255 :: byte)) = TXBUFFERMAX + 1"
    by (simp_all add: TXBUFFERMAX_def)
  from sendConsoleData_deterministic [OF a b] a b show ?thesis by blast
qed


text \<open>
  Claim C7, for the current sketch. In every state that SLABatMon-v3 reaches, the marks of
  Job 1 and Job 2 are equal, so Job 2 runs in exactly the passes in which Job 1 runs and
  never reads an unassigned local. Then the line sent to the serial port and the four
  voltages sent to the display are those that Job 1 computed in this same pass, from the
  factor derived from this pass's conversions of the reference channel and from this
  pass's conversions of the battery channels. No factor is kept in the state between
  passes.
\<close>

theorem same_cycle_report:
  assumes "reachable L s"
  shows "timeMark1 s = timeMark2 s
     \<and> loop L s inp \<noteq> Inl UninitialisedRead
     \<and> (\<forall>s' evs. loop L s inp = Inr (s', evs) \<longrightarrow>
           (Fired Job2 \<in> set evs \<longleftrightarrow> Fired Job1 \<in> set evs)
           \<and> (Fired Job2 \<in> set evs \<longrightarrow>
                (\<exists>buf. sendConsoleData L (txBuffer s)
                     (adcRef50v (job1_body (fp_round L) (adc inp)))
                     (myVoltsB1 (job1_body (fp_round L) (adc inp)))
                     (myVoltsB2 (job1_body (fp_round L) (adc inp)))
                     (myVoltsB3 (job1_body (fp_round L) (adc inp)))
                     (myVoltsB4 (job1_body (fp_round L) (adc inp))) = Inr (buf, serial_text evs))
                \<and> set (showLCDBatteryData L
                     (myVoltsB1 (job1_body (fp_round L) (adc inp)))
                     (myVoltsB2 (job1_body (fp_round L) (adc inp)))
                     (myVoltsB3 (job1_body (fp_round L) (adc inp)))
                     (myVoltsB4 (job1_body (fp_round L) (adc inp)))) \<subseteq> set evs))
     \<and> adcFactor (job1_body (fp_round L) (adc inp))
         = fmul (fp_round L)
             (fdiv (fp_round L) (AVREF (fp_round L))
                (float_of_int (fp_round L) (getADCReading (fp_round L) (adc inp AVRFVMON))))
             VDIVRATIO
     \<and> myVoltsB1 (job1_body (fp_round L) (adc inp))
         = fmul (fp_round L) (adcFactor (job1_body (fp_round L) (adc inp)))
             (float_of_int (fp_round L) (getADCReading (fp_round L) (adc inp BAT1VMON)))"
proof -
  have inv: "timeMark1 s = timeMark2 s"
    using reachable_invariant [OF assms] by simp
  have both: "Fired Job2 \<in> set evs \<longleftrightarrow> Fired Job1 \<in> set evs"
    if "loop L s inp = Inr (s', evs)" for s' evs
    using Fired_in_iff [OF that, of Job1] Fired_in_iff [OF that, of Job2] inv
    by (simp add: JOB1CYCLE_def JOB2CYCLE_def)
  show ?thesis
    using inv loop_no_uninitialised [OF inv] both loop_report [OF _ inv]
    by (simp add: job1_body_def job1_assign_def Let_def)
qed

lemma bench_pass:
  "\<exists>s' evs. loop ref_platform initial_state (pass_at 300000) = Inr (s', evs)
      \<and> Fired Job2 \<in> set evs"
proof -
  have a: "length (txBuffer initial_state) = TXBUFFERMAX + 1"
    by (simp add: initial_state_def)
  have b: "list_all (\<lambda>v. length (field_of ref_platform v) \<le> 7)
      [Fin (8448 / 1735), Fin (81279 / 6940), Fin (18612 / 1735), Fin (69399 / 6940), Fin (99 / 6940)]"
    by (simp add: bench_fields)
  have c: "length (value_string ref_platform
      [Fin (8448 / 1735), Fin (81279 / 6940), Fin (18612 / 1735), Fin (69399 / 6940), Fin (99 / 6940)])
      < length (txBuffer initial_state)"
    by (simp add: bench_value_string initial_state_def TXBUFFERMAX_def)
  note f = sendConsoleData_frame [OF b c]
  have t: "timeMark1 initial_state = 0" "timeMark2 initial_state = 0"
    "timeMark3 initial_state = 0" "timeMark9 initial_state = 0"
    by (simp_all add: initial_state_def)
  show ?thesis
    unfolding loop_def Let_def
    by (simp add: job1_def job2_def job3_def job9_def pass_at_def t bench_locals f
        JOB1CYCLE_def JOB2CYCLE_def JOB3CYCLE_def JOB9CYCLE_def)
qed

theorem same_cycle_report_witness:
  "reachable ref_platform initial_state
   \<and> (\<exists>s' evs. loop ref_platform initial_state (pass_at 300000) = Inr (s', evs)
         \<and> Fired Job1 \<in> set evs \<and> Fired Job2 \<in> set evs
         \<and> serial_text evs = ''4.87,11.71,10.73,10.00,0.01,251'' @ CRLF)"
proof -
  have r: "reachable ref_platform initial_state"
    by (rule reachable_initial)
  obtain s' evs where l: "loop ref_platform initial_state (pass_at 300000) = Inr (s', evs)"
    and j2: "Fired Job2 \<in> set evs"
    using bench_pass by blast
  from same_cycle_report [OF r, of "pass_at 300000"] l j2
  obtain buf where j1: "Fired Job1 \<in> set evs"
    and sc: "sendConsoleData ref_platform (txBuffer initial_state)
       (adcRef50v (job1_body (fp_round ref_platform) (adc (pass_at 300000))))
       (myVoltsB1 (job1_body (fp_round ref_platform) (adc (pass_at 300000))))
       (myVoltsB2 (job1_body (fp_round ref_platform) (adc (pass_at 300000))))
       (myVoltsB3 (job1_body (fp_round ref_platform) (adc (pass_at 300000))))
       (myVoltsB4 (job1_body (fp_round ref_platform) (adc (pass_at 300000)))) = Inr (buf, serial_text evs)"
    by blast
  have a: "txBuffer initial_state = replicate 33 0"
    by (simp add: initial_state_def TXBUFFERMAX_def)
  have "adc (pass_at 300000) = bench_adc"
    by (simp add: pass_at_def)
  with sc have "sendConsoleData ref_platform (replicate 33 0)
         (Fin (8448 / 1735)) (Fin (81279 / 6940)) (Fin (18612 / 1735)) (Fin (69399 / 6940)) (Fin (99 / 6940))
       = Inr (buf, serial_text evs)"
    by (simp add: bench_locals a)
  moreover have "\<exists>buf'. sendConsoleData ref_platform (replicate 33 0)
         (Fin (8448 / 1735)) (Fin (81279 / 6940)) (Fin (18612 / 1735)) (Fin (69399 / 6940)) (Fin (99 / 6940))
       = Inr (buf', ''4.87,11.71,10.73,10.00,0.01,251'' @ CRLF)"
    using bench_frame by blast
  ultimately have "serial_text evs = ''4.87,11.71,10.73,10.00,0.01,251'' @ CRLF"
    by auto
  with r l j1 j2 show ?thesis by blast
qed

lemma drift_readings:
  "getADCReading (\<lambda>x. x) (drift_adc A7) = 661"
  "getADCReading (\<lambda>x. x) (drift_adc A0) = 821"
  "getADCReading (\<lambda>x. x) (drift_adc A1) = 752"
  "getADCReading (\<lambda>x. x) (drift_adc A2) = 701"
  "getADCReading (\<lambda>x. x) (drift_adc A3) = 1"
proof -
  have r: "adc_in_range (drift_adc p)" for p
    by (cases p) (simp_all add: adc_in_range_def drift_adc_def bench_adc_def ADC_MAX_def)
  show "getADCReading (\<lambda>x. x) (drift_adc A7) = 661"
    "getADCReading (\<lambda>x. x) (drift_adc A0) = 821"
    "getADCReading (\<lambda>x. x) (drift_adc A1) = 752"
    "getADCReading (\<lambda>x. x) (drift_adc A2) = 701"
    "getADCReading (\<lambda>x. x) (drift_adc A3) = 1"
    unfolding getADCReading_closed_form [OF binary32_rounding_exact r]
    by (simp_all add: samples_sum_def drift_adc_def bench_adc_def)
qed

lemmas pin_defs = AVRFVMON_def BAT1VMON_def BAT2VMON_def BAT3VMON_def BAT4VMON_def

text \<open>
  The first release, SLABatMon.ino, caches the factor: it is derived in \<^verbatim>\<open>setup()\<close> and
  never again. With the reference converting to 693 at start-up, the factor is
  \<open>3.3 / 694 * 3\<close>; in a later cycle, when the reference would convert to 660, the fresh
  battery samples are still multiplied by that factor and not by \<open>3.3 / 661 * 3\<close>, the
  factor the current sketch derives in that cycle.
\<close>

theorem first_release_stale_factor_counterexample:
  "setup_v1 (\<lambda>x. x) bench_adc = Fin (99 / 6940)
   \<and> job1_v1 (\<lambda>x. x) (setup_v1 (\<lambda>x. x) bench_adc) drift_adc
       = (Fin (99 / 6940 * 821), Fin (99 / 6940 * 752), Fin (99 / 6940 * 701), Fin (99 / 6940 * 1))
   \<and> adcFactor (job1_body (\<lambda>x. x) drift_adc) = Fin (99 / 6610)
   \<and> myVoltsB1 (job1_body (\<lambda>x. x) drift_adc) = Fin (99 / 6610 * 821)
   \<and> (99 / 6940 :: real) \<noteq> 99 / 6610"
  by (simp add: setup_v1_def job1_v1_def job1_body_def job1_assign_def pin_defs bench_readings
      drift_readings AVREF_def float_of_int_def ADCLEVELS_def VDIVRATIO_def Let_def)

subsection \<open>The calibration\<close>
















subsection \<open>The display\<close>

lemma showLCDVoltage_sentinel:
  "flt v (Fin 0) \<or> fge v (Fin 100) \<Longrightarrow> showLCDVoltage L v = ''--.--''"
  by (cases v) (auto simp: showLCDVoltage_def)

lemma showLCDVoltage_examples:
  "showLCDVoltage L (Fin (- 1)) = ''--.--''" "showLCDVoltage L (Fin 150) = ''--.--''"
  by (simp_all add: showLCDVoltage_def)

lemma showLCDVoltage_in_range:
  "fge v (Fin 0) \<Longrightarrow> flt v (Fin 100) \<Longrightarrow>
     showLCDVoltage L v = (if flt v (Fin 10) then ''0'' else []) @ printFloat L v 2"
  by (simp add: showLCDVoltage_def)

text \<open>
  Claim C8 fails at a voltage just below 10. On the bench of this theory battery 3 reads
  701 against a reference reading of 694, which is 9.99986 volts. The value is in range and
  below 10, so \<^verbatim>\<open>showLCDVoltage\<close> prints the pad \<^verbatim>\<open>0\<close>, and \<^verbatim>\<open>print\<close> then rounds the
  value to \<^verbatim>\<open>10.00\<close>: six characters, \<^verbatim>\<open>010.00\<close>, in a field of five. The sentinel half
  of the claim holds (lemma \<open>showLCDVoltage_sentinel\<close>).
\<close>

theorem showLCDVoltage_six_characters:
  "myVoltsB3 (job1_body (fp_round ref_platform) bench_adc) = Fin (69399 / 6940)
   \<and> fge (Fin (69399 / 6940)) (Fin 0) \<and> flt (Fin (69399 / 6940)) (Fin 10)
   \<and> printFloat ref_platform (Fin (69399 / 6940)) 2 = ''10.00''
   \<and> showLCDVoltage ref_platform (Fin (69399 / 6940)) = ''010.00''
   \<and> length (showLCDVoltage ref_platform (Fin (69399 / 6940))) = 6"
proof -
  have a: "myVoltsB3 (job1_body (fp_round ref_platform) bench_adc) = Fin (69399 / 6940)"
    by (simp add: bench_locals)
  have b: "printFloat ref_platform (Fin (69399 / 6940)) 2 = ''10.00''"
    by (simp add: ref_platform_def printFloat_unsigned_def numeral_2_eq_2 Let_def
        printNumber.simps digit_chars)
  have c: "showLCDVoltage ref_platform (Fin (69399 / 6940)) = ''010.00''"
    by (simp add: showLCDVoltage_def b)
  from a b c show ?thesis by simp
qed

end
